theory Spec2Isabelle
  imports Main "HOL-Library.Word"
begin

unbundle bit_operations_syntax

section \<open>Conventions\<close>

text \<open>
  A shallow embedding of \<^verbatim>\<open>src/scraper.py\<close> and \<^verbatim>\<open>src/config.py\<close>.

  \<^item> A Python \<^verbatim>\<open>str\<close> is a \<^typ>\<open>string\<close>; every \<^typ>\<open>char\<close> stands for one
    character (code points 0 to 255).
  \<^item> \<^verbatim>\<open>None\<close> is \<^term>\<open>None\<close>; a field that holds \<^verbatim>\<open>None\<close> or a string is a
    \<^typ>\<open>string option\<close>.
  \<^item> The network, the file system, the clock and the libraries \<^verbatim>\<open>dateutil\<close> and
    \<^verbatim>\<open>urllib.parse\<close> are the environment: a record of functions that the scraper
    is given. What the environment answers may depend on the moment of the call, which
    is the number of events that have happened so far.
  \<^item> Every effect of the scraper on the world is an event of the trace, in the order of
    the calls. Logging is not modelled: no value of the program depends on it.
\<close>

section \<open>config.py\<close>

definition BASE_URL :: string where
  "BASE_URL = ''https://www.welt.de''"

definition CATEGORY_URLS :: "string list" where
  "CATEGORY_URLS =
     [''https://www.welt.de/politik/'',
      ''https://www.welt.de/wirtschaft/'',
      ''https://www.welt.de/sport/'',
      ''https://www.welt.de/kultur/'',
      ''https://www.welt.de/wissenschaft/'',
      ''https://www.welt.de/'']"

definition REQUEST_DELAY :: int where
  "REQUEST_DELAY = 2"

definition MAX_RETRIES :: int where
  "MAX_RETRIES = 3"

definition MAX_ARTICLES_PER_CATEGORY :: int where
  "MAX_ARTICLES_PER_CATEGORY = 50"

definition DATA_DIR :: string where
  "DATA_DIR = ''data''"

text \<open>\<^verbatim>\<open>ARTICLE_FILENAME_FORMAT.format(date=..., id=...)\<close> with the template
  \<^verbatim>\<open>"{date}_{id}.json"\<close>.\<close>

definition ARTICLE_FILENAME_FORMAT :: "string \<Rightarrow> string \<Rightarrow> string" where
  "ARTICLE_FILENAME_FORMAT date_v id_v = date_v @ ''_'' @ id_v @ ''.json''"

definition COMBINED_OUTPUT :: string where
  "COMBINED_OUTPUT = ''data/all_articles.json''"

section \<open>The parsed page\<close>

text \<open>
  The tree that \<^verbatim>\<open>BeautifulSoup(response.text, 'lxml')\<close> builds. A tag has a name, its
  attributes (the raw attribute strings, keys distinct) and its children. A
  \<open>NavigableString\<close> is text that \<^verbatim>\<open>get_text\<close> reads; an \<open>OtherString\<close> is a string
  that \<^verbatim>\<open>get_text\<close> of an ordinary tag skips (a comment, the body of a script or a style
  element). The soup itself is the root tag; searches look at its descendants only.
\<close>

datatype node =
    Tag string "(string \<times> string) list" "node list"
  | NavigableString string
  | OtherString string

section \<open>The world\<close>

datatype event =
    Get string bool
  | Sleep int
  | WriteArticle string bool
  | WriteCombined bool
  | Makedirs bool
  | Extracting string bool

record article_data =
  url :: string
  scraped_at :: string
  title :: "string option"
  text' :: "string option"
  date :: "string option"
  author :: "string option"
  category :: "string option"

text \<open>
  What is at a path: a complete article file, a complete combined file, or a file that
  \<^verbatim>\<open>open(path, 'w')\<close> has created or emptied and into which the dump did not complete
  (empty, or the beginning of the JSON text).
\<close>

datatype file_content =
    ArticleFile article_data
  | CombinedFile "article_data list"
  | TruncatedFile

text \<open>
  The exceptions that end a method: \<^verbatim>\<open>ValueError\<close> of \<^verbatim>\<open>urllib.parse\<close>, \<^verbatim>\<open>OSError\<close> of
  \<^verbatim>\<open>os.makedirs\<close>, and \<open>UncaughtError\<close> for an exception of \<^verbatim>\<open>session.get\<close> that is not a
  \<^verbatim>\<open>requests.RequestException\<close> (for instance \<^verbatim>\<open>LocationParseError\<close> of urllib3).
\<close>

datatype error = ValueError | OSError | UncaughtError

text \<open>
  What \<^verbatim>\<open>session.get(url, ...)\<close> does: it returns a response, given here by its status
  code and by the tree that \<^verbatim>\<open>BeautifulSoup(response.text, 'lxml')\<close> builds of its body; or
  it raises a \<^verbatim>\<open>requests.RequestException\<close> (network error, time-out); or it raises
  another exception.
\<close>

datatype http_result =
    Responded int node
  | RequestException
  | OtherException

type_synonym response = "int \<times> node"

text \<open>What opening a file for writing and \<^verbatim>\<open>json.dump\<close> into it do: both succeed,
  \<^verbatim>\<open>open\<close> raises, or \<^verbatim>\<open>open\<close> succeeds and the dump raises.\<close>

datatype write_result = Written | OpenFailed | DumpFailed

text \<open>
  The environment.
  \<^item> \<open>http_get n u\<close>: what \<^verbatim>\<open>session.get(u, ...)\<close> does at moment \<open>n\<close>.
  \<^item> \<open>file_write n p\<close>: what opening \<open>p\<close> for writing and \<^verbatim>\<open>json.dump\<close> into it do at
    moment \<open>n\<close>.
  \<^item> \<open>makedirs_ok n\<close>: whether \<^verbatim>\<open>os.makedirs(DATA_DIR, exist_ok=True)\<close> succeeds.
  \<^item> \<open>now_iso n\<close>: \<^verbatim>\<open>datetime.now().isoformat()\<close> at moment \<open>n\<close>.
  \<^item> \<open>date_parse d\<close>: \<^verbatim>\<open>date_parser.parse(d).isoformat()\<close>, \<open>None\<close> when it raises.
  \<^item> \<open>urljoin b h\<close> and \<open>urlparse_path u\<close> (\<^verbatim>\<open>urlparse(u).path\<close>): \<open>None\<close> when
    \<^verbatim>\<open>urllib.parse\<close> raises \<^verbatim>\<open>ValueError\<close>.
  \<^item> \<open>iteration_order S\<close>: the order in which a \<^verbatim>\<open>for\<close> loop visits the Python set
    \<open>S\<close>.
\<close>

record env =
  http_get :: "nat \<Rightarrow> string \<Rightarrow> http_result"
  file_write :: "nat \<Rightarrow> string \<Rightarrow> write_result"
  makedirs_ok :: "nat \<Rightarrow> bool"
  now_iso :: "nat \<Rightarrow> string"
  date_parse :: "string \<Rightarrow> string option"
  urljoin :: "string \<Rightarrow> string \<Rightarrow> string option"
  urlparse_path :: "string \<Rightarrow> string option"
  iteration_order :: "string set \<Rightarrow> string list"

text \<open>
  The scraper object (\<open>articles\<close>, \<open>scraped_urls\<close>) and the world it acts on: \<open>written\<close>
  maps a path to what the writes of the run have left there, \<open>trace\<close> lists the events:
  \<^item> \<open>Get u ok\<close>: a request for \<open>u\<close> and whether \<^verbatim>\<open>get_page\<close> got a response that it
    returns;
  \<^item> \<open>Sleep n\<close>: \<^verbatim>\<open>time.sleep(n)\<close>;
  \<^item> \<open>WriteArticle p ok\<close>: \<^verbatim>\<open>save_article\<close> wrote the file \<open>p\<close>, or failed to;
  \<^item> \<open>WriteCombined ok\<close>: \<^verbatim>\<open>save_all_articles\<close> wrote the combined file, or failed to;
  \<^item> \<open>Makedirs ok\<close>: \<^verbatim>\<open>os.makedirs\<close>;
  \<^item> \<open>Extracting u marked\<close>: \<^verbatim>\<open>extract_article_content(u)\<close> is called; \<open>marked\<close> tells
    whether \<open>u\<close> is in \<open>scraped_urls\<close> at that moment.
\<close>

record state =
  articles :: "article_data list"
  scraped_urls :: "string set"
  written :: "string \<rightharpoonup> file_content"
  trace :: "event list"

text \<open>\<^verbatim>\<open>WeltScraper.__init__\<close>, in a world where nothing has happened yet.\<close>

definition init :: state where
  "init = \<lparr>articles = [], scraped_urls = {}, written = Map.empty, trace = []\<rparr>"

definition emit :: "event \<Rightarrow> state \<Rightarrow> state" where
  "emit ev s = s\<lparr>trace := trace s @ [ev]\<rparr>"

definition clock :: "state \<Rightarrow> nat" where
  "clock s = length (trace s)"

section \<open>Python strings\<close>

text \<open>\<^verbatim>\<open>str.isspace\<close> of one character (the white space of Unicode below 256).\<close>

definition isspace :: "char \<Rightarrow> bool" where
  "isspace c = (of_char c \<in> {9, 10, 11, 12, 13, 28, 29, 30, 31, 32, 133, 160 :: nat})"

text \<open>\<^verbatim>\<open>s.strip()\<close>\<close>

definition strip :: "string \<Rightarrow> string" where
  "strip s = rev (dropWhile isspace (rev (dropWhile isspace s)))"

text \<open>\<^verbatim>\<open>s.lower()\<close>: the capital letters of ASCII and of Latin-1.\<close>

definition lower_char :: "char \<Rightarrow> char" where
  "lower_char c =
     (let n = of_char c :: nat
      in if (65 \<le> n \<and> n \<le> 90) \<or> (192 \<le> n \<and> n \<le> 222 \<and> n \<noteq> 215)
         then char_of (n + 32) else c)"

definition lower :: "string \<Rightarrow> string" where
  "lower s = map lower_char s"

text \<open>\<^verbatim>\<open>s.startswith(p)\<close>, \<^verbatim>\<open>s.endswith(p)\<close>, \<^verbatim>\<open>p in s\<close>\<close>

definition startswith :: "string \<Rightarrow> string \<Rightarrow> bool" where
  "startswith s p = (take (length p) s = p)"

definition endswith :: "string \<Rightarrow> string \<Rightarrow> bool" where
  "endswith s p = (length p \<le> length s \<and> drop (length s - length p) s = p)"

fun contains :: "string \<Rightarrow> string \<Rightarrow> bool" where
  "contains p [] = (p = [])"
| "contains p (c # cs) = (startswith (c # cs) p \<or> contains p cs)"

text \<open>\<^verbatim>\<open>s.split(sep)\<close> for a separator of one character: one part more than there are
  separators.\<close>

fun str_split :: "char \<Rightarrow> string \<Rightarrow> string list" where
  "str_split sep [] = [[]]"
| "str_split sep (c # cs) =
     (if c = sep then [] # str_split sep cs
      else (case str_split sep cs of
              [] \<Rightarrow> [[c]]
            | part # parts \<Rightarrow> (c # part) # parts))"

text \<open>\<^verbatim>\<open>sep.join(parts)\<close>\<close>

fun str_join :: "string \<Rightarrow> string list \<Rightarrow> string" where
  "str_join sep [] = []"
| "str_join sep [part] = part"
| "str_join sep (part # parts) = part @ sep @ str_join sep parts"

text \<open>The truth value of a string or \<^verbatim>\<open>None\<close>: false for \<^verbatim>\<open>None\<close> and for \<^verbatim>\<open>''\<close>.\<close>

fun truthy :: "string option \<Rightarrow> bool" where
  "truthy None = False"
| "truthy (Some s) = (s \<noteq> [])"

text \<open>\<^verbatim>\<open>a or b\<close> on such values.\<close>

definition or_str :: "string option \<Rightarrow> string option \<Rightarrow> string option" where
  "or_str a b = (if truthy a then a else b)"

text \<open>\<^verbatim>\<open>a or b\<close> on the results of \<^verbatim>\<open>find\<close>: a tag is always true.\<close>

fun or_tag :: "node option \<Rightarrow> node option \<Rightarrow> node option" where
  "or_tag (Some t) b = Some t"
| "or_tag None b = b"

text \<open>\<^verbatim>\<open>os.path.join(a, b)\<close> on POSIX.\<close>

definition os_path_join :: "string \<Rightarrow> string \<Rightarrow> string" where
  "os_path_join a b =
     (if startswith b ''/'' then b
      else if a = [] \<or> endswith a ''/'' then a @ b
      else a @ ''/'' @ b)"

section \<open>BeautifulSoup\<close>

text \<open>\<^verbatim>\<open>tag.descendants\<close>: every node below the tag, in document order.\<close>

fun descendants :: "node \<Rightarrow> node list" where
  "descendants (Tag name attrs children) = concat (map (\<lambda>c. c # descendants c) children)"
| "descendants (NavigableString s) = []"
| "descendants (OtherString s) = []"

fun is_tag :: "string \<Rightarrow> node \<Rightarrow> bool" where
  "is_tag name (Tag n attrs children) = (n = name)"
| "is_tag name (NavigableString s) = False"
| "is_tag name (OtherString s) = False"

text \<open>\<^verbatim>\<open>tag.get(key)\<close>\<close>

fun tag_get :: "node \<Rightarrow> string \<Rightarrow> string option" where
  "tag_get (Tag n attrs children) key = map_of attrs key"
| "tag_get (NavigableString s) key = None"
| "tag_get (OtherString s) key = None"

text \<open>\<^verbatim>\<open>tag.get_text(strip=True)\<close>: the text strings below the tag, each stripped, the
  empty ones dropped, concatenated.\<close>

fun stripped_string :: "node \<Rightarrow> string list" where
  "stripped_string (NavigableString s) = (if strip s = [] then [] else [strip s])"
| "stripped_string (Tag n attrs children) = []"
| "stripped_string (OtherString s) = []"

definition get_text :: "node \<Rightarrow> string" where
  "get_text t = concat (concat (map stripped_string (descendants t)))"

text \<open>\<^verbatim>\<open>tag.find_all(...)\<close> and \<^verbatim>\<open>tag.find(...)\<close> for a test \<open>P\<close> on nodes.\<close>

definition soup_find_all :: "(node \<Rightarrow> bool) \<Rightarrow> node \<Rightarrow> node list" where
  "soup_find_all P t = filter P (descendants t)"

definition soup_find :: "(node \<Rightarrow> bool) \<Rightarrow> node \<Rightarrow> node option" where
  "soup_find P t = (case soup_find_all P t of [] \<Rightarrow> None | x # xs \<Rightarrow> Some x)"

text \<open>The values of a multi-valued attribute (\<open>class\<close>, \<open>rel\<close>): the maximal runs of
  characters that are not white space.\<close>

fun nonwhitespace :: "string \<Rightarrow> string \<Rightarrow> string list" where
  "nonwhitespace [] w = (if w = [] then [] else [rev w])"
| "nonwhitespace (c # cs) w =
     (if isspace c
      then (if w = [] then nonwhitespace cs [] else rev w # nonwhitespace cs [])
      else nonwhitespace cs (c # w))"

text \<open>
  How a search matches a multi-valued attribute against a test \<open>f\<close> (a function given
  as \<^verbatim>\<open>class_=\<close>, or equality with a string): a tag without the attribute is tested
  with \<^verbatim>\<open>None\<close>; otherwise some value passes the test, or the values joined by single
  spaces do.
\<close>

definition matches_multi :: "(string option \<Rightarrow> bool) \<Rightarrow> string \<Rightarrow> node \<Rightarrow> bool" where
  "matches_multi f key t =
     (case tag_get t key of
        None \<Rightarrow> f None
      | Some raw \<Rightarrow>
          (let vs = nonwhitespace raw []
           in list_ex (\<lambda>v. f (Some v)) vs \<or> f (Some (str_join '' '' vs))))"

text \<open>A search for a tag name with a single-valued attribute equal to a string.\<close>

definition tag_with :: "string \<Rightarrow> string \<Rightarrow> string \<Rightarrow> node \<Rightarrow> bool" where
  "tag_with name key v t = (is_tag name t \<and> tag_get t key = Some v)"

section \<open>WeltScraper.get_page\<close>

text \<open>\<^verbatim>\<open>response.raise_for_status()\<close> raises \<^verbatim>\<open>HTTPError\<close>, a \<^verbatim>\<open>RequestException\<close>, for
  the status codes 400 to 599 and for no other.\<close>

definition raise_for_status :: "int \<Rightarrow> bool" where
  "raise_for_status status_code = (400 \<le> status_code \<and> status_code < 600)"

text \<open>
  The body of the \<^verbatim>\<open>try\<close> block: \<open>Inr (Some response)\<close> when it returns the response,
  \<open>Inr None\<close> when it raises a \<^verbatim>\<open>RequestException\<close>, which the handler catches, \<open>Inl\<close>
  when it raises another exception, which nothing catches.
\<close>

fun try_get :: "http_result \<Rightarrow> error + response option" where
  "try_get (Responded status_code page) =
     (if raise_for_status status_code then Inr None else Inr (Some (status_code, page)))"
| "try_get RequestException = Inr None"
| "try_get OtherException = Inl UncaughtError"

text \<open>The result is \<open>Inr (Some response)\<close>, \<open>Inr None\<close> for \<^verbatim>\<open>None\<close>, or \<open>Inl\<close> for an
  exception that leaves the method.\<close>

function get_page :: "env \<Rightarrow> state \<Rightarrow> string \<Rightarrow> int \<Rightarrow> (error + response option) \<times> state" where
  "get_page e s u retries =
     (case try_get (http_get e (clock s) u) of
        Inl exc \<Rightarrow> (Inl exc, emit (Get u False) s)
      | Inr (Some response) \<Rightarrow> (Inr (Some response), emit (Get u True) s)
      | Inr None \<Rightarrow>
          (if retries < MAX_RETRIES
           then get_page e (emit (Sleep (REQUEST_DELAY * 2)) (emit (Get u False) s)) u (retries + 1)
           else (Inr None, emit (Get u False) s)))"
  by pat_completeness auto
termination
  by (relation "measure (\<lambda>(e, s, u, retries). nat (MAX_RETRIES - retries))") auto

declare get_page.simps [simp del]

section \<open>WeltScraper.extract_article_links\<close>

definition article_patterns :: "string list" where
  "article_patterns =
     [''/article/'', ''/politik/'', ''/wirtschaft/'', ''/sport/'', ''/kultur/'', ''/wissenschaft/'']"

text \<open>\<^verbatim>\<open>[link['href'] for link in soup.find_all('a', href=True)]\<close>\<close>

fun href_of :: "node \<Rightarrow> string list" where
  "href_of t = (case tag_get t ''href'' of None \<Rightarrow> [] | Some href \<Rightarrow> [href])"

definition anchor_hrefs :: "node \<Rightarrow> string list" where
  "anchor_hrefs soup = concat (map href_of (soup_find_all (is_tag ''a'') soup))"

text \<open>The body of the loop over the anchors; \<open>article_links\<close> is the set built so far.
  A \<^verbatim>\<open>ValueError\<close> of \<^verbatim>\<open>urljoin\<close> or \<^verbatim>\<open>urlparse\<close> is not caught.\<close>

fun links_loop :: "env \<Rightarrow> string set \<Rightarrow> string \<Rightarrow> string list \<Rightarrow> string set \<Rightarrow> error + string set" where
  "links_loop e scraped base_url [] article_links = Inr article_links"
| "links_loop e scraped base_url (href # hrefs) article_links =
     (case urljoin e base_url href of
        None \<Rightarrow> Inl ValueError
      | Some full_url \<Rightarrow>
          (if list_ex (\<lambda>pattern. contains pattern full_url) article_patterns
           then (if startswith full_url BASE_URL \<and> full_url \<notin> scraped
                 then (case urlparse_path e full_url of
                         None \<Rightarrow> Inl ValueError
                       | Some path \<Rightarrow>
                           (if length (str_split CHR ''/'' path) \<ge> 3 \<and> \<not> endswith full_url ''/''
                            then links_loop e scraped base_url hrefs (insert full_url article_links)
                            else links_loop e scraped base_url hrefs article_links))
                 else links_loop e scraped base_url hrefs article_links)
           else links_loop e scraped base_url hrefs article_links))"

definition extract_article_links :: "env \<Rightarrow> state \<Rightarrow> node \<Rightarrow> string \<Rightarrow> error + string set" where
  "extract_article_links e s soup base_url =
     links_loop e (scraped_urls s) base_url (anchor_hrefs soup) {}"

section \<open>WeltScraper.extract_article_content\<close>

text \<open>\<^verbatim>\<open>soup.find('h1') or soup.find('title')\<close>, then \<^verbatim>\<open>get_text(strip=True)\<close>\<close>

definition extract_title :: "node \<Rightarrow> string option" where
  "extract_title soup =
     (case or_tag (soup_find (is_tag ''h1'') soup) (soup_find (is_tag ''title'') soup) of
        None \<Rightarrow> None
      | Some title_tag \<Rightarrow> Some (get_text title_tag))"

text \<open>\<^verbatim>\<open>lambda x: x and 'author' in x.lower()\<close>\<close>

fun author_class :: "string option \<Rightarrow> bool" where
  "author_class None = False"
| "author_class (Some x) = (x \<noteq> [] \<and> contains ''author'' (lower x))"

definition extract_author :: "node \<Rightarrow> string option" where
  "extract_author soup =
     (case or_tag (soup_find (tag_with ''meta'' ''name'' ''author'') soup)
            (or_tag (soup_find (\<lambda>t. is_tag ''span'' t \<and> matches_multi author_class ''class'' t) soup)
                    (soup_find (\<lambda>t. is_tag ''a'' t \<and> matches_multi (\<lambda>x. x = Some ''author'') ''rel'' t) soup)) of
        None \<Rightarrow> None
      | Some author_tag \<Rightarrow>
          (if is_tag ''meta'' author_tag then tag_get author_tag ''content''
           else Some (get_text author_tag)))"

definition find_date_tag :: "node \<Rightarrow> node option" where
  "find_date_tag soup =
     or_tag (soup_find (tag_with ''meta'' ''property'' ''article:published_time'') soup)
       (or_tag (soup_find (tag_with ''meta'' ''name'' ''date'') soup)
               (soup_find (is_tag ''time'') soup))"

text \<open>\<^verbatim>\<open>date_tag.get('content') or date_tag.get('datetime') or date_tag.get_text(strip=True)\<close>\<close>

definition date_str :: "node \<Rightarrow> string" where
  "date_str date_tag =
     (case or_str (tag_get date_tag ''content'')
             (or_str (tag_get date_tag ''datetime'') (Some (get_text date_tag))) of
        None \<Rightarrow> get_text date_tag
      | Some d \<Rightarrow> d)"

text \<open>The parser's result, or the raw string when the parser raises.\<close>

definition extract_date :: "env \<Rightarrow> node \<Rightarrow> string option" where
  "extract_date e soup =
     (case find_date_tag soup of
        None \<Rightarrow> None
      | Some date_tag \<Rightarrow>
          (case date_parse e (date_str date_tag) of
             Some parsed \<Rightarrow> Some parsed
           | None \<Rightarrow> Some (date_str date_tag)))"

text \<open>The category; \<open>Inl\<close> when \<^verbatim>\<open>urlparse(url)\<close> raises.\<close>

definition extract_category :: "env \<Rightarrow> node \<Rightarrow> string \<Rightarrow> error + string option" where
  "extract_category e soup u =
     (case or_tag (soup_find (tag_with ''meta'' ''property'' ''article:section'') soup)
                  (soup_find (tag_with ''meta'' ''name'' ''category'') soup) of
        Some category_tag \<Rightarrow> Inr (tag_get category_tag ''content'')
      | None \<Rightarrow>
          (case urlparse_path e u of
             None \<Rightarrow> Inl ValueError
           | Some path \<Rightarrow>
               (let path_parts = str_split CHR ''/'' path
                in if length path_parts > 1 then Inr (Some (path_parts ! 1)) else Inr None)))"

text \<open>\<^verbatim>\<open>lambda x: x and any(term in str(x).lower() for term in [...])\<close>\<close>

fun body_class :: "string option \<Rightarrow> bool" where
  "body_class None = False"
| "body_class (Some x) =
     (x \<noteq> [] \<and> list_ex (\<lambda>trm. contains trm (lower x)) [''article'', ''content'', ''body'', ''text''])"

definition find_article_body :: "node \<Rightarrow> node option" where
  "find_article_body soup =
     or_tag (soup_find (is_tag ''article'') soup)
            (soup_find (\<lambda>t. is_tag ''div'' t \<and> matches_multi body_class ''class'' t) soup)"

definition extract_text :: "node \<Rightarrow> string option" where
  "extract_text soup =
     (case find_article_body soup of
        None \<Rightarrow> None
      | Some article_body \<Rightarrow>
          (let paragraphs = soup_find_all (is_tag ''p'') article_body;
               text_parts = map get_text (filter (\<lambda>p. get_text p \<noteq> []) paragraphs)
           in Some (str_join [CHR 0x0A, CHR 0x0A] text_parts)))"

text \<open>
  The whole method. The event \<open>Extracting\<close> marks the call. An exception that leaves
  \<^verbatim>\<open>get_page\<close> leaves this method too: the call is not inside the \<^verbatim>\<open>try\<close> block. An
  exception in the \<^verbatim>\<open>try\<close> block (here: of \<^verbatim>\<open>urlparse\<close>) and a missing title or text both
  give \<^verbatim>\<open>None\<close>.
\<close>

definition extract_article_content :: "env \<Rightarrow> state \<Rightarrow> string \<Rightarrow> (error + article_data option) \<times> state" where
  "extract_article_content e s u =
     (case get_page e (emit (Extracting u (u \<in> scraped_urls s)) s) u 0 of
        (Inl exc, s1) \<Rightarrow> (Inl exc, s1)
      | (Inr None, s1) \<Rightarrow> (Inr None, s1)
      | (Inr (Some (status_code, soup)), s1) \<Rightarrow>
          (case extract_category e soup u of
             Inl err \<Rightarrow> (Inr None, s1)
           | Inr cat \<Rightarrow>
               (let article = \<lparr>url = u, scraped_at = now_iso e (clock s1),
                                title = extract_title soup, text' = extract_text soup,
                                date = extract_date e soup, author = extract_author soup,
                                category = cat\<rparr>
                in if \<not> truthy (title article) \<or> \<not> truthy (text' article)
                   then (Inr None, s1)
                   else (Inr (Some article), s1))))"

section \<open>hashlib.md5\<close>

text \<open>
  \<^verbatim>\<open>hashlib.md5(url.encode()).hexdigest()\<close>: the MD5 message digest of RFC 1321 over
  the UTF-8 encoding of the string, printed as 32 lower-case hexadecimal digits.
\<close>

definition utf8_encode :: "string \<Rightarrow> 8 word list" where
  "utf8_encode s =
     concat (map (\<lambda>c. let n = of_char c :: nat
                      in if n < 128 then [of_nat n]
                         else [of_nat (192 + n div 64), of_nat (128 + n mod 64)]) s)"

definition md5_shifts :: "nat list" where
  "md5_shifts =
     [7, 12, 17, 22, 7, 12, 17, 22, 7, 12, 17, 22, 7, 12, 17, 22,
      5, 9, 14, 20, 5, 9, 14, 20, 5, 9, 14, 20, 5, 9, 14, 20,
      4, 11, 16, 23, 4, 11, 16, 23, 4, 11, 16, 23, 4, 11, 16, 23,
      6, 10, 15, 21, 6, 10, 15, 21, 6, 10, 15, 21, 6, 10, 15, 21]"

definition md5_K :: "32 word list" where
  "md5_K =
     [0xd76aa478, 0xe8c7b756, 0x242070db, 0xc1bdceee, 0xf57c0faf, 0x4787c62a, 0xa8304613, 0xfd469501,
      0x698098d8, 0x8b44f7af, 0xffff5bb1, 0x895cd7be, 0x6b901122, 0xfd987193, 0xa679438e, 0x49b40821,
      0xf61e2562, 0xc040b340, 0x265e5a51, 0xe9b6c7aa, 0xd62f105d, 0x02441453, 0xd8a1e681, 0xe7d3fbc8,
      0x21e1cde6, 0xc33707d6, 0xf4d50d87, 0x455a14ed, 0xa9e3e905, 0xfcefa3f8, 0x676f02d9, 0x8d2a4c8a,
      0xfffa3942, 0x8771f681, 0x6d9d6122, 0xfde5380c, 0xa4beea44, 0x4bdecfa9, 0xf6bb4b60, 0xbebfbc70,
      0x289b7ec6, 0xeaa127fa, 0xd4ef3085, 0x04881d05, 0xd9d4d039, 0xe6db99e5, 0x1fa27cf8, 0xc4ac5665,
      0xf4292244, 0x432aff97, 0xab9423a7, 0xfc93a039, 0x655b59c3, 0x8f0ccc92, 0xffeff47d, 0x85845dd1,
      0x6fa87e4f, 0xfe2ce6e0, 0xa3014314, 0x4e0811a1, 0xf7537e82, 0xbd3af235, 0x2ad7d2bb, 0xeb86d391]"

definition rotl32 :: "32 word \<Rightarrow> nat \<Rightarrow> 32 word" where
  "rotl32 x c = push_bit c x OR drop_bit (32 - c) x"

type_synonym md5_state = "32 word \<times> 32 word \<times> 32 word \<times> 32 word"

fun md5_step :: "32 word list \<Rightarrow> md5_state \<Rightarrow> nat \<Rightarrow> md5_state" where
  "md5_step M (A, B, C, D) i =
     (let (F, g) =
            (if i < 16 then ((B AND C) OR (NOT B AND D), i)
             else if i < 32 then ((D AND B) OR (NOT D AND C), (5 * i + 1) mod 16)
             else if i < 48 then (B XOR C XOR D, (3 * i + 5) mod 16)
             else (C XOR (B OR NOT D), (7 * i) mod 16));
          F2 = F + A + md5_K ! i + M ! g
      in (D, B + rotl32 F2 (md5_shifts ! i), B, C))"

definition le32 :: "8 word list \<Rightarrow> 32 word" where
  "le32 bs = foldr (\<lambda>b w. ucast b OR push_bit 8 w) bs 0"

definition md5_block :: "md5_state \<Rightarrow> 8 word list \<Rightarrow> md5_state" where
  "md5_block st block =
     (let M = map (\<lambda>j. le32 (take 4 (drop (4 * j) block))) [0..<16];
          (a0, b0, c0, d0) = st;
          (A, B, C, D) = foldl (md5_step M) st [0..<64]
      in (a0 + A, b0 + B, c0 + C, d0 + D))"

definition md5_pad :: "8 word list \<Rightarrow> 8 word list" where
  "md5_pad msg =
     msg @ [0x80] @ replicate ((119 - length msg mod 64) mod 64) 0
         @ map (\<lambda>i. ucast (drop_bit (8 * i) (of_nat (8 * length msg) :: 64 word))) [0..<8]"

definition bytes32 :: "32 word \<Rightarrow> 8 word list" where
  "bytes32 w = map (\<lambda>i. ucast (drop_bit (8 * i) w)) [0..<4]"

definition md5 :: "8 word list \<Rightarrow> 8 word list" where
  "md5 msg =
     (let padded = md5_pad msg;
          blocks = map (\<lambda>k. take 64 (drop (64 * k) padded)) [0..<length padded div 64];
          (a, b, c, d) = foldl md5_block (0x67452301, 0xefcdab89, 0x98badcfe, 0x10325476) blocks
      in bytes32 a @ bytes32 b @ bytes32 c @ bytes32 d)"

definition hexdigits :: string where
  "hexdigits = ''0123456789abcdef''"

definition hex_digit :: "nat \<Rightarrow> char" where
  "hex_digit n = hexdigits ! n"

definition hexdigest :: "8 word list \<Rightarrow> string" where
  "hexdigest bs = concat (map (\<lambda>b. [hex_digit (unat b div 16), hex_digit (unat b mod 16)]) bs)"

section \<open>WeltScraper.generate_article_id\<close>

definition generate_article_id :: "string \<Rightarrow> string" where
  "generate_article_id u = take 12 (hexdigest (md5 (utf8_encode u)))"

section \<open>WeltScraper.save_article and save_all_articles\<close>

text \<open>\<^verbatim>\<open>article_data.get('date', 'unknown')[:10] if article_data.get('date') else 'unknown'\<close>\<close>

definition date_prefix :: "article_data \<Rightarrow> string" where
  "date_prefix a = (if truthy (date a) then take 10 (case date a of None \<Rightarrow> ''unknown'' | Some d \<Rightarrow> d)
                    else ''unknown'')"

definition article_filename :: "article_data \<Rightarrow> string" where
  "article_filename a = ARTICLE_FILENAME_FORMAT (date_prefix a) (generate_article_id (url a))"

definition article_filepath :: "article_data \<Rightarrow> string" where
  "article_filepath a = os_path_join DATA_DIR (article_filename a)"

text \<open>
  The argument is \<^verbatim>\<open>None\<close> or a record. A failed write is caught: the collection stays
  as it is; when \<^verbatim>\<open>open\<close> had succeeded, the file is left truncated.
\<close>

fun save_article :: "env \<Rightarrow> state \<Rightarrow> article_data option \<Rightarrow> state" where
  "save_article e s None = s"
| "save_article e s (Some a) =
     (case file_write e (clock s) (article_filepath a) of
        Written \<Rightarrow>
          (emit (WriteArticle (article_filepath a) True) s)
            \<lparr>articles := articles s @ [a],
             written := (written s)(article_filepath a \<mapsto> ArticleFile a)\<rparr>
      | OpenFailed \<Rightarrow> emit (WriteArticle (article_filepath a) False) s
      | DumpFailed \<Rightarrow>
          (emit (WriteArticle (article_filepath a) False) s)
            \<lparr>written := (written s)(article_filepath a \<mapsto> TruncatedFile)\<rparr>)"

definition save_all_articles :: "env \<Rightarrow> state \<Rightarrow> state" where
  "save_all_articles e s =
     (case file_write e (clock s) COMBINED_OUTPUT of
        Written \<Rightarrow>
          (emit (WriteCombined True) s)
            \<lparr>written := (written s)(COMBINED_OUTPUT \<mapsto> CombinedFile (articles s))\<rparr>
      | OpenFailed \<Rightarrow> emit (WriteCombined False) s
      | DumpFailed \<Rightarrow>
          (emit (WriteCombined False) s)
            \<lparr>written := (written s)(COMBINED_OUTPUT \<mapsto> TruncatedFile)\<rparr>)"

section \<open>WeltScraper.scrape_category\<close>

text \<open>
  The loop over the article links, visited in the order \<open>article_links\<close>; \<open>count\<close> is the
  loop's counter. The first equation is the end of the iteration, the first branch of the
  second is \<^verbatim>\<open>break\<close>, the second branch is \<^verbatim>\<open>continue\<close>. \<open>Inl\<close>: the exception that
  ends the loop and the method, with the state at that moment.
\<close>

fun scrape_loop :: "env \<Rightarrow> int \<Rightarrow> string list \<Rightarrow> int \<Rightarrow> state \<Rightarrow> error \<times> state + state" where
  "scrape_loop e max_articles [] count s = Inr s"
| "scrape_loop e max_articles (article_url # article_links) count s =
     (if count \<ge> max_articles then Inr s
      else if article_url \<in> scraped_urls s
      then scrape_loop e max_articles article_links count s
      else (case extract_article_content e (s\<lparr>scraped_urls := insert article_url (scraped_urls s)\<rparr>) article_url of
              (Inl exc, s1) \<Rightarrow> Inl (exc, s1)
            | (Inr (Some a), s1) \<Rightarrow>
                scrape_loop e max_articles article_links (count + 1)
                  (emit (Sleep REQUEST_DELAY) (save_article e s1 (Some a)))
            | (Inr None, s1) \<Rightarrow>
                scrape_loop e max_articles article_links count (emit (Sleep REQUEST_DELAY) s1)))"

text \<open>\<open>Inl\<close>: the exception that ends the method, with the state at that moment.\<close>

definition scrape_category :: "env \<Rightarrow> state \<Rightarrow> string \<Rightarrow> int \<Rightarrow> error \<times> state + state" where
  "scrape_category e s category_url max_articles =
     (case get_page e s category_url 0 of
        (Inl exc, s1) \<Rightarrow> Inl (exc, s1)
      | (Inr None, s1) \<Rightarrow> Inr s1
      | (Inr (Some (status_code, soup)), s1) \<Rightarrow>
          (case extract_article_links e s1 soup category_url of
             Inl err \<Rightarrow> Inl (err, s1)
           | Inr article_links \<Rightarrow>
               scrape_loop e max_articles (iteration_order e article_links) 0 s1))"

section \<open>WeltScraper.scrape_all\<close>

fun categories_loop :: "env \<Rightarrow> string list \<Rightarrow> int \<Rightarrow> state \<Rightarrow> error \<times> state + int \<times> state" where
  "categories_loop e [] total_articles s = Inr (total_articles, s)"
| "categories_loop e (category_url # category_urls) total_articles s =
     (case scrape_category e s category_url MAX_ARTICLES_PER_CATEGORY of
        Inl exc \<Rightarrow> Inl exc
      | Inr s1 \<Rightarrow>
          categories_loop e category_urls
            (total_articles + (int (length (articles s1)) - int (length (articles s)))) s1)"

definition scrape_all :: "env \<Rightarrow> state \<Rightarrow> error \<times> state + int \<times> state" where
  "scrape_all e s =
     (if \<not> makedirs_ok e (clock s) then Inl (OSError, emit (Makedirs False) s)
      else (case categories_loop e CATEGORY_URLS 0 (emit (Makedirs True) s) of
              Inl exc \<Rightarrow> Inl exc
            | Inr (total_articles, s1) \<Rightarrow> Inr (total_articles, save_all_articles e s1)))"

text \<open>\<^verbatim>\<open>main()\<close>\<close>

definition main :: "env \<Rightarrow> error \<times> state + int \<times> state" where
  "main e = scrape_all e init"

section \<open>Observations on a trace\<close>

text \<open>The number of individual article files written with success.\<close>

fun is_saved :: "event \<Rightarrow> bool" where
  "is_saved (WriteArticle p ok) = ok"
| "is_saved (Get u ok) = False"
| "is_saved (Sleep n) = False"
| "is_saved (WriteCombined ok) = False"
| "is_saved (Makedirs ok) = False"
| "is_saved (Extracting u marked) = False"

definition successful_saves :: "event list \<Rightarrow> nat" where
  "successful_saves tr = length (filter is_saved tr)"

text \<open>The URLs whose extraction was attempted, in order, and whether each was marked
  as scraped when its extraction began.\<close>

fun extraction :: "event \<Rightarrow> (string \<times> bool) list" where
  "extraction (Extracting u marked) = [(u, marked)]"
| "extraction (Get u ok) = []"
| "extraction (Sleep n) = []"
| "extraction (WriteArticle p ok) = []"
| "extraction (WriteCombined ok) = []"
| "extraction (Makedirs ok) = []"

definition extractions :: "event list \<Rightarrow> (string \<times> bool) list" where
  "extractions tr = concat (map extraction tr)"

definition attempted :: "event list \<Rightarrow> string list" where
  "attempted tr = map fst (extractions tr)"

text \<open>The state in which a call of \<open>scrape_category\<close> ends, and the state in which a
  run ends, with or without an exception.\<close>

fun state_of :: "error \<times> state + state \<Rightarrow> state" where
  "state_of (Inl (exc, s)) = s"
| "state_of (Inr s) = s"

fun final_state :: "error \<times> state + int \<times> state \<Rightarrow> state" where
  "final_state (Inl (exc, s)) = s"
| "final_state (Inr (total_articles, s)) = s"

text \<open>
  The slash-separated segments of a path, as the words of the specification read: the
  non-empty parts between the slashes. (The code counts the parts of
  \<^verbatim>\<open>path.split('/')\<close> instead.)
\<close>

definition path_segments :: "string \<Rightarrow> string list" where
  "path_segments path = filter (\<lambda>part. part \<noteq> []) (str_split CHR ''/'' path)"

text \<open>
  \<open>later s evs s'\<close>: the state \<open>s'\<close> comes after \<open>s\<close> by the events \<open>evs\<close>, in an
  orderly way. The collection has grown by one record for every article file written;
  the scraped URLs have grown by exactly the URLs whose extraction was attempted; these
  are pairwise distinct, none was scraped before, and each was marked as scraped when its
  extraction began.
\<close>

definition later :: "state \<Rightarrow> event list \<Rightarrow> state \<Rightarrow> bool" where
  "later s evs s' =
     (trace s' = trace s @ evs
      \<and> (\<exists>new. articles s' = articles s @ new \<and> length new = successful_saves evs)
      \<and> scraped_urls s' = scraped_urls s \<union> set (attempted evs)
      \<and> distinct (attempted evs)
      \<and> set (attempted evs) \<inter> scraped_urls s = {}
      \<and> list_all snd (extractions evs))"

section \<open>Sample pages and environments\<close>

text \<open>The page of the end-to-end scenario, as lxml completes it.\<close>

definition hello_page :: node where
  "hello_page =
     Tag ''[document]'' []
       [Tag ''html'' []
          [Tag ''body'' []
             [Tag ''h1'' [] [NavigableString ''Title''],
              Tag ''article'' []
                [Tag ''p'' [] [NavigableString ''Hello''],
                 Tag ''p'' [] [NavigableString ''World'']]]]]"

definition article_url :: string where
  "article_url = ''https://www.welt.de/politik/article1/x.html''"

text \<open>The record that the extractor makes of \<open>hello_page\<close> in the environments below.\<close>

definition hello_record :: article_data where
  "hello_record =
     \<lparr>url = article_url, scraped_at = ''2024-01-15T10:00:00'', title = Some ''Title'',
      text' = Some (''Hello'' @ [CHR 0x0A, CHR 0x0A] @ ''World''), date = None, author = None,
      category = Some ''politik''\<rparr>"

text \<open>An article page with a \<open>time\<close> element that carries a date no parser reads, and
  one with a \<open>time\<close> element that carries nothing at all.\<close>

definition dated_page :: node where
  "dated_page =
     Tag ''[document]'' []
       [Tag ''html'' []
          [Tag ''body'' []
             [Tag ''h1'' [] [NavigableString ''Title''],
              Tag ''time'' [(''datetime'', ''gestern'')] [],
              Tag ''article'' [] [Tag ''p'' [] [NavigableString ''Hello'']]]]]"

definition dated_url :: string where
  "dated_url = ''https://www.welt.de/politik/article2/y.html''"

definition undated_page :: node where
  "undated_page =
     Tag ''[document]'' []
       [Tag ''html'' []
          [Tag ''body'' []
             [Tag ''h1'' [] [NavigableString ''Title''],
              Tag ''time'' [] [],
              Tag ''article'' [] [Tag ''p'' [] [NavigableString ''Hello'']]]]]"

definition undated_url :: string where
  "undated_url = ''https://www.welt.de/politik/article3/z.html''"

text \<open>A listing page with a link to a page right below a section and a link to the
  second page of a section.\<close>

definition section_page :: node where
  "section_page =
     Tag ''[document]'' []
       [Tag ''html'' []
          [Tag ''body'' []
             [Tag ''a'' [(''href'', ''https://www.welt.de/sport/x'')]
                [NavigableString ''Sport''],
              Tag ''a'' [(''href'', ''https://www.welt.de/politik/?page=2'')]
                [NavigableString ''More'']]]]"

text \<open>A listing page with a link to an article and a link to a category page.\<close>

definition listing_page :: node where
  "listing_page =
     Tag ''[document]'' []
       [Tag ''html'' []
          [Tag ''body'' []
             [Tag ''a'' [(''href'', ''https://www.welt.de/politik/article1/x.html'')]
                [NavigableString ''An article''],
              Tag ''a'' [(''href'', ''https://www.welt.de/politik/ausland/'')]
                [NavigableString ''Ausland'']]]]"

text \<open>
  An environment in which the site serves the listing page for the first category and
  the sample pages for the articles, every write succeeds and no date can be parsed. Its
  \<open>urljoin\<close> and \<open>urlparse_path\<close> are right for absolute URLs of the site (without
  parameters after a semicolon).
\<close>

definition online :: env where
  "online =
     \<lparr>http_get = (\<lambda>n u. if u = ''https://www.welt.de/politik/'' then Responded 200 listing_page
                        else if u = article_url then Responded 200 hello_page
                        else if u = dated_url then Responded 200 dated_page
                        else if u = undated_url then Responded 200 undated_page
                        else RequestException),
      file_write = (\<lambda>n p. Written),
      makedirs_ok = (\<lambda>n. True),
      now_iso = (\<lambda>n. ''2024-01-15T10:00:00''),
      date_parse = (\<lambda>d. None),
      urljoin = (\<lambda>b h. Some h),
      urlparse_path = (\<lambda>u. Some (takeWhile (\<lambda>c. c \<noteq> CHR ''?'' \<and> c \<noteq> CHR ''#'')
                                    (drop (length BASE_URL) u))),
      iteration_order = (\<lambda>S. if article_url \<in> S then [article_url] else [])\<rparr>"

text \<open>The same, with every request answered by the status 503.\<close>

definition offline :: env where
  "offline = online\<lparr>http_get := (\<lambda>n u. Responded 503 (Tag ''[document]'' [] []))\<rparr>"

text \<open>The same, with every request answered by the status 304 and an empty body.\<close>

definition not_modified :: env where
  "not_modified = online\<lparr>http_get := (\<lambda>n u. Responded 304 (Tag ''[document]'' [] []))\<rparr>"

text \<open>The same, with every request raising an exception that is not a
  \<^verbatim>\<open>RequestException\<close>.\<close>

definition broken_session :: env where
  "broken_session = online\<lparr>http_get := (\<lambda>n u. OtherException)\<rparr>"

text \<open>The same as \<open>online\<close>, with every file opened and no dump completed.\<close>

definition disk_full :: env where
  "disk_full = online\<lparr>file_write := (\<lambda>n p. DumpFailed)\<rparr>"

section \<open>Properties of the fetcher\<close>

lemma emit_fields [simp]:
  "articles (emit ev s) = articles s"
  "scraped_urls (emit ev s) = scraped_urls s"
  "written (emit ev s) = written s"
  "trace (emit ev s) = trace s @ [ev]"
  by (simp_all add: emit_def)

lemma get_page_fails_from:
  assumes "\<forall>n. try_get (http_get e n u) = Inr None" and "retries \<le> MAX_RETRIES"
  shows "get_page e s u retries =
           (Inr None, s\<lparr>trace := trace s
              @ concat (replicate (nat (MAX_RETRIES - retries)) [Get u False, Sleep (REQUEST_DELAY * 2)])
              @ [Get u False]\<rparr>)"
  using assms
proof (induction e s u retries rule: get_page.induct)
  case (1 e s u retries)
  have f: "try_get (http_get e (clock s) u) = Inr None"
    using "1.prems"(1) by simp
  show ?case
  proof (cases "retries < MAX_RETRIES")
    case True
    then have n: "nat (MAX_RETRIES - retries) = Suc (nat (MAX_RETRIES - (retries + 1)))"
      by simp
    have "get_page e s u retries =
            get_page e (emit (Sleep (REQUEST_DELAY * 2)) (emit (Get u False) s)) u (retries + 1)"
      using True f by (subst get_page.simps) simp
    also have "\<dots> = (Inr None, (emit (Sleep (REQUEST_DELAY * 2)) (emit (Get u False) s))
          \<lparr>trace := trace (emit (Sleep (REQUEST_DELAY * 2)) (emit (Get u False) s))
              @ concat (replicate (nat (MAX_RETRIES - (retries + 1))) [Get u False, Sleep (REQUEST_DELAY * 2)])
              @ [Get u False]\<rparr>)"
      using "1.IH" [OF f _ True] "1.prems" True by simp
    finally show ?thesis
      by (simp add: n emit_def)
  next
    case False
    with "1.prems" have "retries = MAX_RETRIES" by simp
    then show ?thesis
      using f by (subst get_page.simps) (simp add: emit_def)
  qed
qed

lemma get_page_bounded:
  "\<exists>evs. snd (get_page e s u retries) = s\<lparr>trace := trace s @ evs\<rparr>
         \<and> length evs \<le> 2 * nat (MAX_RETRIES - retries) + 1"
proof (induction e s u retries rule: get_page.induct)
  case (1 e s u retries)
  show ?case
  proof (cases "try_get (http_get e (clock s) u)")
    case (Inl exc)
    then have "snd (get_page e s u retries) = s\<lparr>trace := trace s @ [Get u False]\<rparr>"
      by (subst get_page.simps) (simp add: emit_def)
    then show ?thesis by force
  next
    case (Inr r)
    show ?thesis
    proof (cases r)
      case (Some response)
      with Inr have "snd (get_page e s u retries) = s\<lparr>trace := trace s @ [Get u True]\<rparr>"
        by (subst get_page.simps) (simp add: emit_def)
      then show ?thesis by force
    next
      case None
      show ?thesis
      proof (cases "retries < MAX_RETRIES")
        case False
        with Inr None have "snd (get_page e s u retries) = s\<lparr>trace := trace s @ [Get u False]\<rparr>"
          by (subst get_page.simps) (simp add: emit_def)
        then show ?thesis by force
      next
        case True
        from "1.IH" [OF Inr None True] obtain evs where
          evs: "snd (get_page e (emit (Sleep (REQUEST_DELAY * 2)) (emit (Get u False) s)) u (retries + 1))
                 = (emit (Sleep (REQUEST_DELAY * 2)) (emit (Get u False) s))
                     \<lparr>trace := trace (emit (Sleep (REQUEST_DELAY * 2)) (emit (Get u False) s)) @ evs\<rparr>"
            "length evs \<le> 2 * nat (MAX_RETRIES - (retries + 1)) + 1"
          by blast
        from Inr None True have "get_page e s u retries =
            get_page e (emit (Sleep (REQUEST_DELAY * 2)) (emit (Get u False) s)) u (retries + 1)"
          by (subst get_page.simps) simp
        with evs(1) have "snd (get_page e s u retries) =
            s\<lparr>trace := trace s @ ([Get u False, Sleep (REQUEST_DELAY * 2)] @ evs)\<rparr>"
          by (simp add: emit_def)
        moreover have "length ([Get u False, Sleep (REQUEST_DELAY * 2)] @ evs)
                         \<le> 2 * nat (MAX_RETRIES - retries) + 1"
          using evs(2) True by simp
        ultimately show ?thesis by blast
      qed
    qed
  qed
qed

text \<open>
  C3, as the code has it. When every request for the URL raises a
  \<^verbatim>\<open>requests.RequestException\<close> (of \<^verbatim>\<open>session.get\<close>, or of \<^verbatim>\<open>raise_for_status\<close> for a status
  from 400 to 599), \<open>get_page\<close> (called as the scraper calls it, with \<open>retries = 0\<close>)
  returns \<^verbatim>\<open>None\<close> after exactly \<open>1 + MAX_RETRIES\<close> requests, with a sleep of
  \<open>REQUEST_DELAY * 2\<close> before each of the \<open>MAX_RETRIES\<close> retries, and does nothing else.
  Whatever the requests do, such a call ends after at most \<open>2 * MAX_RETRIES + 1\<close> events
  (\<open>get_page\<close> is a total function).
\<close>

theorem get_page_always_failing:
  assumes "\<forall>n. try_get (http_get e n u) = Inr None"
  shows "get_page e s u 0 =
           (Inr None, s\<lparr>trace := trace s
              @ concat (replicate (nat MAX_RETRIES) [Get u False, Sleep (REQUEST_DELAY * 2)])
              @ [Get u False]\<rparr>)
     \<and> (\<forall>e' s' u'. \<exists>evs. snd (get_page e' s' u' 0) = s'\<lparr>trace := trace s' @ evs\<rparr>
            \<and> length evs \<le> 2 * nat MAX_RETRIES + 1)"
proof -
  have "\<exists>evs. snd (get_page e' s' u' 0) = s'\<lparr>trace := trace s' @ evs\<rparr>
            \<and> length evs \<le> 2 * nat MAX_RETRIES + 1" for e' s' u'
    using get_page_bounded [of e' s' u' 0] by simp
  with get_page_fails_from [OF assms, of 0 s] show ?thesis
    by (simp add: MAX_RETRIES_def)
qed

theorem get_page_always_failing_witness:
  "(\<forall>n. try_get (http_get offline n article_url) = Inr None)
   \<and> get_page offline init article_url 0 =
       (Inr None, init\<lparr>trace :=
          [Get article_url False, Sleep 4, Get article_url False, Sleep 4,
           Get article_url False, Sleep 4, Get article_url False]\<rparr>)"
proof -
  have h: "\<forall>n. try_get (http_get offline n article_url) = Inr None"
    by (simp add: offline_def raise_for_status_def)
  have "concat (replicate (nat MAX_RETRIES) [Get article_url False, Sleep (REQUEST_DELAY * 2)])
          = [Get article_url False, Sleep 4, Get article_url False, Sleep 4, Get article_url False, Sleep 4]"
    by (simp add: MAX_RETRIES_def REQUEST_DELAY_def numeral_3_eq_3)
  with h get_page_always_failing [OF h, of init] show ?thesis
    by (simp add: init_def)
qed

text \<open>
  C3 as the claim has it fails in two ways. A request that raises an exception other
  than a \<^verbatim>\<open>RequestException\<close> makes \<open>get_page\<close> raise after one request, without a retry.
  A response with the status 304, which is not a success, is returned as a page after one
  request, without a retry.
\<close>

theorem get_page_raises_or_returns_non_success:
  "get_page broken_session init article_url 0
     = (Inl UncaughtError, init\<lparr>trace := [Get article_url False]\<rparr>)
   \<and> get_page not_modified init article_url 0
     = (Inr (Some (304, Tag ''[document]'' [] [])), init\<lparr>trace := [Get article_url True]\<rparr>)"
proof -
  have "get_page broken_session init article_url 0
     = (Inl UncaughtError, init\<lparr>trace := [Get article_url False]\<rparr>)"
    by (subst get_page.simps) (simp add: broken_session_def emit_def init_def)
  moreover have "get_page not_modified init article_url 0
     = (Inr (Some (304, Tag ''[document]'' [] [])), init\<lparr>trace := [Get article_url True]\<rparr>)"
    by (subst get_page.simps) (simp add: not_modified_def raise_for_status_def emit_def init_def)
  ultimately show ?thesis by blast
qed

section \<open>Properties of the link extractor\<close>

lemma links_loop_Inr:
  "links_loop e scraped base_url hrefs acc = Inr article_links \<Longrightarrow>
   article_links = acc \<union>
     {u. \<exists>href\<in>set hrefs. urljoin e base_url href = Some u
          \<and> list_ex (\<lambda>pattern. contains pattern u) article_patterns
          \<and> startswith u BASE_URL \<and> u \<notin> scraped
          \<and> (\<exists>path. urlparse_path e u = Some path \<and> 3 \<le> length (str_split CHR ''/'' path))
          \<and> \<not> endswith u ''/''}"
proof (induction hrefs arbitrary: acc)
  case Nil
  then show ?case by simp
next
  case (Cons href hrefs)
  show ?case
  proof (cases "urljoin e base_url href")
    case None
    with Cons.prems show ?thesis by simp
  next
    case (Some full_url)
    show ?thesis
    proof (cases "list_ex (\<lambda>pattern. contains pattern full_url) article_patterns
                  \<and> startswith full_url BASE_URL \<and> full_url \<notin> scraped")
      case False
      with Cons.prems Some have "links_loop e scraped base_url hrefs acc = Inr article_links"
        by (auto split: if_splits)
      from Cons.IH [OF this] False Some show ?thesis by auto
    next
      case True
      show ?thesis
      proof (cases "urlparse_path e full_url")
        case None
        with Cons.prems Some True show ?thesis by simp
      next
        case (Some path)
        show ?thesis
        proof (cases "3 \<le> length (str_split CHR ''/'' path) \<and> \<not> endswith full_url ''/''")
          case True
          with Cons.prems \<open>urljoin e base_url href = Some full_url\<close> Some
            \<open>list_ex (\<lambda>pattern. contains pattern full_url) article_patterns
                  \<and> startswith full_url BASE_URL \<and> full_url \<notin> scraped\<close>
          have "links_loop e scraped base_url hrefs (insert full_url acc) = Inr article_links"
            by simp
          from Cons.IH [OF this] True Some \<open>urljoin e base_url href = Some full_url\<close>
            \<open>list_ex (\<lambda>pattern. contains pattern full_url) article_patterns
                  \<and> startswith full_url BASE_URL \<and> full_url \<notin> scraped\<close>
          show ?thesis by auto
        next
          case False
          with Cons.prems \<open>urljoin e base_url href = Some full_url\<close> Some
            \<open>list_ex (\<lambda>pattern. contains pattern full_url) article_patterns
                  \<and> startswith full_url BASE_URL \<and> full_url \<notin> scraped\<close>
          have "links_loop e scraped base_url hrefs acc = Inr article_links"
            by (auto split: if_splits)
          from Cons.IH [OF this] False Some \<open>urljoin e base_url href = Some full_url\<close>
          show ?thesis by auto
        qed
      qed
    qed
  qed
qed

lemma length_str_split:
  "length (str_split sep s) = Suc (length (filter (\<lambda>c. c = sep) s))"
  by (induction s) (auto split: list.splits)

text \<open>
  C2, as the code has it. Every URL that the link extractor returns starts with the base
  URL, contains one of the section patterns, is not in the set of scraped URLs, does not
  end with a slash, is the target of an anchor of the page, and has a path that
  \<^verbatim>\<open>split('/')\<close> cuts into at least three parts, which is to say a path with at least two
  slashes. So a URL whose path has fewer than two slashes, or that ends with a slash, is
  never returned.
\<close>

theorem extract_article_links_filter:
  assumes "extract_article_links e s soup base_url = Inr article_links"
    and "u \<in> article_links"
  shows "startswith u BASE_URL
     \<and> (\<exists>pattern\<in>set article_patterns. contains pattern u)
     \<and> u \<notin> scraped_urls s
     \<and> (\<exists>path. urlparse_path e u = Some path \<and> 3 \<le> length (str_split CHR ''/'' path)
            \<and> 2 \<le> length (filter (\<lambda>c. c = CHR ''/'') path))
     \<and> \<not> endswith u ''/''
     \<and> (\<exists>href\<in>set (anchor_hrefs soup). urljoin e base_url href = Some u)"
  using links_loop_Inr [OF assms(1) [unfolded extract_article_links_def]] assms(2)
  by (auto simp: list_ex_iff length_str_split)

lemma anchor_hrefs_listing:
  "anchor_hrefs listing_page =
     [''https://www.welt.de/politik/article1/x.html'', ''https://www.welt.de/politik/ausland/'']"
  by (simp add: anchor_hrefs_def listing_page_def soup_find_all_def)

lemma links_listing:
  "extract_article_links online init listing_page ''https://www.welt.de/politik/'' = Inr {article_url}"
  by (simp add: extract_article_links_def anchor_hrefs_listing online_def init_def
      article_patterns_def startswith_def endswith_def BASE_URL_def article_url_def)

theorem extract_article_links_filter_witness:
  "extract_article_links online init listing_page ''https://www.welt.de/politik/'' = Inr {article_url}
   \<and> article_url \<in> {article_url}
   \<and> startswith article_url BASE_URL
   \<and> (\<exists>pattern\<in>set article_patterns. contains pattern article_url)
   \<and> article_url \<notin> scraped_urls init
   \<and> (\<exists>path. urlparse_path online article_url = Some path \<and> 3 \<le> length (str_split CHR ''/'' path)
          \<and> 2 \<le> length (filter (\<lambda>c. c = CHR ''/'') path))
   \<and> \<not> endswith article_url ''/''
   \<and> (\<exists>href\<in>set (anchor_hrefs listing_page).
         urljoin online ''https://www.welt.de/politik/'' href = Some article_url)"
  using links_listing extract_article_links_filter [OF links_listing, of article_url]
  by simp

text \<open>
  C2 as the claim has it fails: the link extractor returns a URL whose path has the two
  segments \<open>sport\<close> and \<open>x\<close>, and a URL whose path has the one segment \<open>politik\<close>. In both
  paths \<^verbatim>\<open>split('/')\<close> finds three parts, one or two of them empty.
\<close>

lemma anchor_hrefs_section:
  "anchor_hrefs section_page = [''https://www.welt.de/sport/x'', ''https://www.welt.de/politik/?page=2'']"
  by (simp add: anchor_hrefs_def section_page_def soup_find_all_def)

theorem extract_article_links_short_paths:
  "extract_article_links online init section_page ''https://www.welt.de/sport/''
     = Inr {''https://www.welt.de/sport/x'', ''https://www.welt.de/politik/?page=2''}
   \<and> urlparse_path online ''https://www.welt.de/sport/x'' = Some ''/sport/x''
   \<and> path_segments ''/sport/x'' = [''sport'', ''x'']
   \<and> str_split CHR ''/'' ''/sport/x'' = [[], ''sport'', ''x'']
   \<and> urlparse_path online ''https://www.welt.de/politik/?page=2'' = Some ''/politik/''
   \<and> path_segments ''/politik/'' = [''politik'']
   \<and> str_split CHR ''/'' ''/politik/'' = [[], ''politik'', []]"
proof -
  have "extract_article_links online init section_page ''https://www.welt.de/sport/''
     = Inr {''https://www.welt.de/sport/x'', ''https://www.welt.de/politik/?page=2''}"
    by (simp add: extract_article_links_def anchor_hrefs_section online_def init_def
        article_patterns_def startswith_def endswith_def BASE_URL_def insert_commute)
  moreover have "urlparse_path online ''https://www.welt.de/sport/x'' = Some ''/sport/x''"
    "urlparse_path online ''https://www.welt.de/politik/?page=2'' = Some ''/politik/''"
    by (simp_all add: online_def BASE_URL_def)
  moreover have "path_segments ''/sport/x'' = [''sport'', ''x'']"
    "path_segments ''/politik/'' = [''politik'']"
    "str_split CHR ''/'' ''/sport/x'' = [[], ''sport'', ''x'']"
    "str_split CHR ''/'' ''/politik/'' = [[], ''politik'', []]"
    by (simp_all add: path_segments_def)
  ultimately show ?thesis by blast
qed

section \<open>Properties of the identifier\<close>

lemma length_bytes32: "length (bytes32 w) = 4"
  by (simp add: bytes32_def)

lemma length_md5: "length (md5 msg) = 16"
  by (simp add: md5_def Let_def length_bytes32 split: prod.splits)

lemma length_hexdigest: "length (hexdigest bs) = 2 * length bs"
  by (induction bs) (simp_all add: hexdigest_def)

lemma hex_digit_range: "n < 16 \<Longrightarrow> hex_digit n \<in> set hexdigits"
  unfolding hex_digit_def by (rule nth_mem) (simp add: hexdigits_def)

lemma set_hexdigest: "set (hexdigest bs) \<subseteq> set hexdigits"
proof (induction bs)
  case Nil
  then show ?case by (simp add: hexdigest_def)
next
  case (Cons b bs)
  have "unat b < 256"
    using unsigned_less [of b, where ?'a = nat] by simp
  then have "unat b div 16 < 16" by simp
  then have hi: "hex_digit (unat b div 16) \<in> set hexdigits"
    by (rule hex_digit_range)
  have lo: "hex_digit (unat b mod 16) \<in> set hexdigits"
    by (rule hex_digit_range) simp
  from Cons.IH hi lo show ?case
    by (simp add: hexdigest_def)
qed

text \<open>
  C8. The identifier is a function of the URL alone: the first 12 characters of the MD5
  digest of the URL's UTF-8 encoding, written in hexadecimal. It always has exactly 12
  characters, each a hexadecimal digit.
\<close>

theorem generate_article_id_hex:
  "generate_article_id u = take 12 (hexdigest (md5 (utf8_encode u)))
   \<and> length (generate_article_id u) = 12
   \<and> set (generate_article_id u) \<subseteq> set hexdigits"
proof -
  have "set (take 12 (hexdigest (md5 (utf8_encode u)))) \<subseteq> set (hexdigest (md5 (utf8_encode u)))"
    by (rule set_take_subset)
  with set_hexdigest [of "md5 (utf8_encode u)"] show ?thesis
    by (simp add: generate_article_id_def length_hexdigest length_md5)
qed

text \<open>The model of MD5 on two test vectors of RFC 1321.\<close>

lemma md5_test_vectors:
  "hexdigest (md5 (utf8_encode '''')) = ''d41d8cd98f00b204e9800998ecf8427e''"
  "hexdigest (md5 (utf8_encode ''abc'')) = ''900150983cd24fb0d6963f7d28e17f72''"
  by code_simp+

theorem generate_article_id_hex_witness:
  "generate_article_id article_url = ''a9a5073a03c6''
   \<and> length (generate_article_id article_url) = 12
   \<and> set (generate_article_id article_url) \<subseteq> set hexdigits"
proof -
  have v: "generate_article_id article_url = ''a9a5073a03c6''"
    by code_simp
  have "length (generate_article_id article_url) = 12
        \<and> set (generate_article_id article_url) \<subseteq> set hexdigits"
    using generate_article_id_hex [of article_url] by blast
  with v show ?thesis by blast
qed

section \<open>Properties of the article extractor\<close>

lemma extract_article_content_fetched:
  assumes "get_page e (emit (Extracting u (u \<in> scraped_urls s)) s) u 0 = (Inr (Some (status_code, soup)), s1)"
  shows "extract_article_content e s u =
           (case extract_category e soup u of
              Inl err \<Rightarrow> (Inr None, s1)
            | Inr cat \<Rightarrow>
                if truthy (extract_title soup) \<and> truthy (extract_text soup)
                then (Inr (Some \<lparr>url = u, scraped_at = now_iso e (clock s1),
                             title = extract_title soup, text' = extract_text soup,
                             date = extract_date e soup, author = extract_author soup,
                             category = cat\<rparr>), s1)
                else (Inr None, s1))"
  using assms by (simp add: extract_article_content_def Let_def split: sum.splits)

lemma extract_article_content_not_fetched:
  assumes "get_page e (emit (Extracting u (u \<in> scraped_urls s)) s) u 0 = (Inr None, s1)"
  shows "extract_article_content e s u = (Inr None, s1)"
  using assms by (simp add: extract_article_content_def)

lemma extract_category_urlparse:
  assumes "urlparse_path e u = Some path"
  shows "\<exists>cat. extract_category e soup u = Inr cat"
  using assms by (simp add: extract_category_def Let_def split: option.splits)

lemma descendants_hello_page:
  "descendants hello_page =
     [Tag ''html'' []
          [Tag ''body'' []
             [Tag ''h1'' [] [NavigableString ''Title''],
              Tag ''article'' []
                [Tag ''p'' [] [NavigableString ''Hello''],
                 Tag ''p'' [] [NavigableString ''World'']]]],
      Tag ''body'' []
             [Tag ''h1'' [] [NavigableString ''Title''],
              Tag ''article'' []
                [Tag ''p'' [] [NavigableString ''Hello''],
                 Tag ''p'' [] [NavigableString ''World'']]],
      Tag ''h1'' [] [NavigableString ''Title''],
      NavigableString ''Title'',
      Tag ''article'' []
                [Tag ''p'' [] [NavigableString ''Hello''],
                 Tag ''p'' [] [NavigableString ''World'']],
      Tag ''p'' [] [NavigableString ''Hello''],
      NavigableString ''Hello'',
      Tag ''p'' [] [NavigableString ''World''],
      NavigableString ''World'']"
  by (simp add: hello_page_def)

lemma get_text_plain:
  "strip w = w \<Longrightarrow> w \<noteq> [] \<Longrightarrow> get_text (Tag n attrs [NavigableString w]) = w"
  by (simp add: get_text_def)

lemma strip_samples:
  "strip ''Title'' = ''Title''" "strip ''Hello'' = ''Hello''" "strip ''World'' = ''World''"
  by (simp_all add: strip_def isspace_def)

lemma hello_page_h1:
  "soup_find (is_tag ''h1'') hello_page = Some (Tag ''h1'' [] [NavigableString ''Title''])"
  by (simp add: soup_find_def soup_find_all_def descendants_hello_page)

lemma hello_page_article:
  "soup_find (is_tag ''article'') hello_page =
     Some (Tag ''article'' [] [Tag ''p'' [] [NavigableString ''Hello''], Tag ''p'' [] [NavigableString ''World'']])"
  by (simp add: soup_find_def soup_find_all_def descendants_hello_page)

lemma hello_page_paragraphs:
  "map get_text (soup_find_all (is_tag ''p'')
      (Tag ''article'' [] [Tag ''p'' [] [NavigableString ''Hello''], Tag ''p'' [] [NavigableString ''World'']]))
    = [''Hello'', ''World'']"
  by (simp add: soup_find_all_def get_text_plain strip_samples)

lemma get_page_online_article:
  "get_page online s article_url 0 = (Inr (Some (200, hello_page)), emit (Get article_url True) s)"
  by (subst get_page.simps) (simp add: online_def article_url_def raise_for_status_def)

lemma strip_id:
  assumes "s \<noteq> []" and "\<not> isspace (hd s)" and "\<not> isspace (last s)"
  shows "strip s = s"
proof -
  have "dropWhile isspace s = s"
    using assms(2) by (simp add: dropWhile_eq_self_iff)
  moreover have "dropWhile isspace (rev s) = rev s"
    using assms(1,3) by (simp add: dropWhile_eq_self_iff hd_rev)
  ultimately show ?thesis by (simp add: strip_def)
qed

lemma strip_ends:
  assumes "strip s \<noteq> []"
  shows "\<not> isspace (hd (strip s)) \<and> \<not> isspace (last (strip s))"
proof -
  define t where "t = dropWhile isspace s"
  define d where "d = dropWhile isspace (rev t)"
  have s: "strip s = rev d" by (simp add: strip_def t_def d_def)
  with assms have d: "d \<noteq> []" by simp
  then have "\<not> isspace (hd d)" unfolding d_def by (rule hd_dropWhile)
  then have l: "\<not> isspace (last (rev d))" using d by (simp add: last_rev)
  have "rev t = takeWhile isspace (rev t) @ d" by (simp add: d_def)
  then have "last (rev t) = last d" using d by (metis last_appendR)
  moreover from d have t: "t \<noteq> []" unfolding d_def by auto
  ultimately have "last d = hd t" by (simp add: last_rev)
  moreover from t have "\<not> isspace (hd t)" unfolding t_def by (rule hd_dropWhile)
  ultimately have "\<not> isspace (hd (rev d))" using d by (simp add: hd_rev)
  with l s show ?thesis by simp
qed

lemma concat_ends:
  assumes "\<forall>x\<in>set xs. x \<noteq> [] \<and> \<not> isspace (hd x) \<and> \<not> isspace (last x)"
  shows "concat xs = [] \<or> (\<not> isspace (hd (concat xs)) \<and> \<not> isspace (last (concat xs)))"
  using assms
proof (induction xs)
  case Nil
  then show ?case by simp
next
  case (Cons x xs)
  then have x: "x \<noteq> []" "\<not> isspace (hd x)" "\<not> isspace (last x)" by simp_all
  show ?case
  proof (cases "concat xs = []")
    case True
    with x show ?thesis by simp
  next
    case False
    with Cons have "\<not> isspace (last (concat xs))" by simp
    with x False show ?thesis by simp
  qed
qed

lemma stripped_string_ends:
  "x \<in> set (stripped_string n) \<Longrightarrow> x \<noteq> [] \<and> \<not> isspace (hd x) \<and> \<not> isspace (last x)"
  by (cases n) (auto simp: strip_ends split: if_splits)

lemma get_text_stripped: "strip (get_text t) = get_text t"
proof (cases "get_text t = []")
  case True
  then show ?thesis by (simp add: strip_def)
next
  case False
  define parts where "parts = concat (map stripped_string (descendants t))"
  have "\<forall>x\<in>set parts. x \<noteq> [] \<and> \<not> isspace (hd x) \<and> \<not> isspace (last x)"
    unfolding parts_def using stripped_string_ends by auto
  from concat_ends [OF this] have
    "concat parts = [] \<or> (\<not> isspace (hd (concat parts)) \<and> \<not> isspace (last (concat parts)))" .
  moreover have g: "get_text t = concat parts"
    by (simp add: get_text_def parts_def)
  ultimately have "\<not> isspace (hd (get_text t))" "\<not> isspace (last (get_text t))"
    using False unfolding g by blast+
  with False show ?thesis by (rule strip_id)
qed

text \<open>
  C5. When the request for the article gives a page whose first \<open>h1\<close> element has the
  text \<open>Title\<close> and whose first \<open>article\<close> element holds two paragraphs with the texts
  \<open>Hello\<close> and \<open>World\<close> (and \<^verbatim>\<open>urlparse\<close> accepts the URL), the extractor returns a
  record with title \<open>Title\<close> and text \<open>Hello\<close>, an empty line, \<open>World\<close>. In general the
  title is the text of the first \<open>h1\<close> element, else of the \<open>title\<close> element; the text is
  made of the paragraphs of the content container: the text of each, which is stripped,
  the empty ones left out, joined by two line feeds.
\<close>

theorem extract_hello_world:
  assumes "get_page e (emit (Extracting u (u \<in> scraped_urls s)) s) u 0 = (Inr (Some (status_code, soup)), s1)"
    and "urlparse_path e u = Some path"
    and "soup_find (is_tag ''h1'') soup = Some h1" and "get_text h1 = ''Title''"
    and "soup_find (is_tag ''article'') soup = Some body"
    and "map get_text (soup_find_all (is_tag ''p'') body) = [''Hello'', ''World'']"
  shows "(\<exists>a. extract_article_content e s u = (Inr (Some a), s1)
           \<and> title a = Some ''Title''
           \<and> text' a = Some (''Hello'' @ [CHR 0x0A, CHR 0x0A] @ ''World''))
     \<and> extract_title soup =
           map_option get_text (or_tag (soup_find (is_tag ''h1'') soup) (soup_find (is_tag ''title'') soup))
     \<and> extract_text soup =
           map_option (\<lambda>container. str_join [CHR 0x0A, CHR 0x0A]
                         (filter (\<lambda>x. x \<noteq> []) (map get_text (soup_find_all (is_tag ''p'') container))))
             (find_article_body soup)
     \<and> (\<forall>p. strip (get_text p) = get_text p)"
proof -
  have t: "extract_title soup = Some ''Title''"
    using assms(3,4) by (simp add: extract_title_def)
  have f: "map get_text (filter (\<lambda>p. get_text p \<noteq> []) ps) = filter (\<lambda>x. x \<noteq> []) (map get_text ps)" for ps
    by (simp add: filter_map comp_def)
  then have x: "extract_text soup = Some (''Hello'' @ [CHR 0x0A, CHR 0x0A] @ ''World'')"
    using assms(5,6) by (simp add: extract_text_def find_article_body_def)
  from extract_category_urlparse [OF assms(2)] obtain cat
    where "extract_category e soup u = Inr cat" by blast
  with extract_article_content_fetched [OF assms(1)] t x
  have 1: "\<exists>a. extract_article_content e s u = (Inr (Some a), s1)
           \<and> title a = Some ''Title''
           \<and> text' a = Some (''Hello'' @ [CHR 0x0A, CHR 0x0A] @ ''World'')"
    by simp
  have 2: "extract_title soup =
           map_option get_text (or_tag (soup_find (is_tag ''h1'') soup) (soup_find (is_tag ''title'') soup))"
    by (simp add: extract_title_def split: option.splits)
  have 3: "extract_text soup =
           map_option (\<lambda>container. str_join [CHR 0x0A, CHR 0x0A]
                         (filter (\<lambda>x. x \<noteq> []) (map get_text (soup_find_all (is_tag ''p'') container))))
             (find_article_body soup)"
    by (simp add: extract_text_def Let_def f split: option.splits)
  from 1 2 3 get_text_stripped show ?thesis by blast
qed

theorem extract_hello_world_witness:
  "get_page online (emit (Extracting article_url (article_url \<in> scraped_urls init)) init) article_url 0
      = (Inr (Some (200, hello_page)), emit (Get article_url True) (emit (Extracting article_url False) init))
   \<and> urlparse_path online article_url = Some ''/politik/article1/x.html''
   \<and> soup_find (is_tag ''h1'') hello_page = Some (Tag ''h1'' [] [NavigableString ''Title''])
   \<and> get_text (Tag ''h1'' [] [NavigableString ''Title'']) = ''Title''
   \<and> soup_find (is_tag ''article'') hello_page =
        Some (Tag ''article'' [] [Tag ''p'' [] [NavigableString ''Hello''], Tag ''p'' [] [NavigableString ''World'']])
   \<and> map get_text (soup_find_all (is_tag ''p'')
        (Tag ''article'' [] [Tag ''p'' [] [NavigableString ''Hello''], Tag ''p'' [] [NavigableString ''World'']]))
        = [''Hello'', ''World'']
   \<and> (\<exists>a. extract_article_content online init article_url
              = (Inr (Some a), emit (Get article_url True) (emit (Extracting article_url False) init))
           \<and> title a = Some ''Title''
           \<and> text' a = Some (''Hello'' @ [CHR 0x0A, CHR 0x0A] @ ''World''))"
proof -
  have 1: "get_page online (emit (Extracting article_url (article_url \<in> scraped_urls init)) init) article_url 0
      = (Inr (Some (200, hello_page)), emit (Get article_url True) (emit (Extracting article_url False) init))"
    by (simp add: get_page_online_article) (simp add: init_def)
  have 2: "urlparse_path online article_url = Some ''/politik/article1/x.html''"
    by (simp add: online_def article_url_def BASE_URL_def)
  have 4: "get_text (Tag ''h1'' [] [NavigableString ''Title'']) = ''Title''"
    by (simp add: get_text_plain strip_samples)
  from extract_hello_world [OF 1 2 hello_page_h1 4 hello_page_article hello_page_paragraphs]
  have "\<exists>a. extract_article_content online init article_url
              = (Inr (Some a), emit (Get article_url True) (emit (Extracting article_url False) init))
           \<and> title a = Some ''Title''
           \<and> text' a = Some (''Hello'' @ [CHR 0x0A, CHR 0x0A] @ ''World'')"
    by (rule conjunct1)
  with 1 2 4 hello_page_h1 hello_page_article hello_page_paragraphs show ?thesis
    by blast
qed

lemma get_page_date_parse [simp]:
  "get_page (e\<lparr>date_parse := parse\<rparr>) s u retries = get_page e s u retries"
proof (induction e s u retries rule: get_page.induct)
  case (1 e s u retries)
  show ?case
  proof (cases "try_get (http_get e (clock s) u)")
    case (Inl exc)
    then show ?thesis
      by (subst (1 2) get_page.simps) simp
  next
    case (Inr r)
    show ?thesis
    proof (cases r)
      case (Some response)
      with Inr show ?thesis
        by (subst (1 2) get_page.simps) simp
    next
      case None
      show ?thesis
      proof (cases "retries < MAX_RETRIES")
        case True
        with Inr None "1.IH" show ?thesis
          by (subst (1 2) get_page.simps) simp
      next
        case False
        with Inr None show ?thesis
          by (subst (1 2) get_page.simps) simp
      qed
    qed
  qed
qed

lemma extract_category_date_parse [simp]:
  "extract_category (e\<lparr>date_parse := parse\<rparr>) soup u = extract_category e soup u"
  by (simp add: extract_category_def split: option.splits)

text \<open>
  C9. When the page has a date element and the date parser raises on its raw string, the
  record that the extractor returns carries the raw string itself as its date. What the
  parser does with the string changes nothing else: with any other parser the extractor
  returns a record in the same cases, with the same other fields, and leaves the same
  state.
\<close>

theorem unparseable_date_kept:
  assumes "get_page e (emit (Extracting u (u \<in> scraped_urls s)) s) u 0 = (Inr (Some (status_code, soup)), s1)"
    and "find_date_tag soup = Some date_tag"
    and "date_parse e (date_str date_tag) = None"
  shows "(\<forall>a. fst (extract_article_content e s u) = Inr (Some a) \<longrightarrow> date a = Some (date_str date_tag))
     \<and> (\<forall>parse.
           map_sum id (map_option (\<lambda>a. a\<lparr>date := None\<rparr>)) (fst (extract_article_content (e\<lparr>date_parse := parse\<rparr>) s u))
             = map_sum id (map_option (\<lambda>a. a\<lparr>date := None\<rparr>)) (fst (extract_article_content e s u))
           \<and> snd (extract_article_content (e\<lparr>date_parse := parse\<rparr>) s u)
               = snd (extract_article_content e s u))"
proof -
  have d: "extract_date e soup = Some (date_str date_tag)"
    using assms(2,3) by (simp add: extract_date_def)
  have 1: "\<forall>a. fst (extract_article_content e s u) = Inr (Some a) \<longrightarrow> date a = Some (date_str date_tag)"
    using extract_article_content_fetched [OF assms(1)] d
    by (auto split: sum.splits if_splits)
  have 2: "map_sum id (map_option (\<lambda>a. a\<lparr>date := None\<rparr>)) (fst (extract_article_content (e\<lparr>date_parse := parse\<rparr>) s u))
             = map_sum id (map_option (\<lambda>a. a\<lparr>date := None\<rparr>)) (fst (extract_article_content e s u))
           \<and> snd (extract_article_content (e\<lparr>date_parse := parse\<rparr>) s u)
               = snd (extract_article_content e s u)" for parse
  proof -
    have "get_page (e\<lparr>date_parse := parse\<rparr>) (emit (Extracting u (u \<in> scraped_urls s)) s) u 0
            = (Inr (Some (status_code, soup)), s1)"
      using assms(1) by simp
    from extract_article_content_fetched [OF this] extract_article_content_fetched [OF assms(1)]
    show ?thesis
      by (simp split: sum.splits)
  qed
  from 1 2 show ?thesis by blast
qed

lemma get_page_online_dated:
  "get_page online s dated_url 0 = (Inr (Some (200, dated_page)), emit (Get dated_url True) s)"
  by (subst get_page.simps) (simp add: online_def dated_url_def article_url_def raise_for_status_def)

lemma descendants_dated_page:
  "descendants dated_page =
     [Tag ''html'' []
          [Tag ''body'' []
             [Tag ''h1'' [] [NavigableString ''Title''],
              Tag ''time'' [(''datetime'', ''gestern'')] [],
              Tag ''article'' [] [Tag ''p'' [] [NavigableString ''Hello'']]]],
      Tag ''body'' []
             [Tag ''h1'' [] [NavigableString ''Title''],
              Tag ''time'' [(''datetime'', ''gestern'')] [],
              Tag ''article'' [] [Tag ''p'' [] [NavigableString ''Hello'']]],
      Tag ''h1'' [] [NavigableString ''Title''],
      NavigableString ''Title'',
      Tag ''time'' [(''datetime'', ''gestern'')] [],
      Tag ''article'' [] [Tag ''p'' [] [NavigableString ''Hello'']],
      Tag ''p'' [] [NavigableString ''Hello''],
      NavigableString ''Hello'']"
  by (simp add: dated_page_def)

lemma dated_page_date_tag:
  "find_date_tag dated_page = Some (Tag ''time'' [(''datetime'', ''gestern'')] [])"
  by (simp add: find_date_tag_def soup_find_def soup_find_all_def descendants_dated_page tag_with_def)

lemma dated_page_date_str:
  "date_str (Tag ''time'' [(''datetime'', ''gestern'')] []) = ''gestern''"
  by (simp add: date_str_def or_str_def)

lemma dated_page_title: "extract_title dated_page = Some ''Title''"
  by (simp add: extract_title_def soup_find_def soup_find_all_def descendants_dated_page
      get_text_plain strip_samples)

lemma dated_page_text: "extract_text dated_page = Some ''Hello''"
  by (simp add: extract_text_def find_article_body_def soup_find_def soup_find_all_def
      descendants_dated_page get_text_plain strip_samples)

lemma dated_page_category: "extract_category online dated_page dated_url = Inr (Some ''politik'')"
  by (simp add: extract_category_def soup_find_def soup_find_all_def descendants_dated_page
      tag_with_def online_def dated_url_def BASE_URL_def)

theorem unparseable_date_kept_witness:
  "get_page online (emit (Extracting dated_url (dated_url \<in> scraped_urls init)) init) dated_url 0
      = (Inr (Some (200, dated_page)), emit (Get dated_url True) (emit (Extracting dated_url False) init))
   \<and> find_date_tag dated_page = Some (Tag ''time'' [(''datetime'', ''gestern'')] [])
   \<and> date_parse online (date_str (Tag ''time'' [(''datetime'', ''gestern'')] [])) = None
   \<and> (\<exists>a. fst (extract_article_content online init dated_url) = Inr (Some a)
          \<and> date a = Some ''gestern'' \<and> title a = Some ''Title'' \<and> text' a = Some ''Hello'')"
proof -
  have 1: "get_page online (emit (Extracting dated_url (dated_url \<in> scraped_urls init)) init) dated_url 0
      = (Inr (Some (200, dated_page)), emit (Get dated_url True) (emit (Extracting dated_url False) init))"
    by (simp add: get_page_online_dated) (simp add: init_def)
  have 3: "date_parse online (date_str (Tag ''time'' [(''datetime'', ''gestern'')] [])) = None"
    by (simp add: online_def)
  obtain a where a: "fst (extract_article_content online init dated_url) = Inr (Some a)"
      "title a = Some ''Title''" "text' a = Some ''Hello''"
    using extract_article_content_fetched [OF 1]
    by (simp add: dated_page_title dated_page_text dated_page_category)
  from unparseable_date_kept [OF 1 dated_page_date_tag 3] a(1)
  have "date a = Some ''gestern''"
    by (simp add: dated_page_date_str)
  with 1 3 a dated_page_date_tag show ?thesis by blast
qed

section \<open>Properties of the persistence layer\<close>

lemma date_prefix_cases:
  "date_prefix a = (case date a of None \<Rightarrow> ''unknown''
                    | Some d \<Rightarrow> if d = [] then ''unknown'' else take 10 d)"
  by (simp add: date_prefix_def split: option.splits)

text \<open>
  C6, as the code has it. The file name is the date prefix, an underscore, the identifier
  and \<open>.json\<close>; the identifier is the first 12 hexadecimal digits of the MD5 digest of
  the URL; the date prefix is the first 10 characters of the date, or \<open>unknown\<close> when
  the date is \<^verbatim>\<open>None\<close> or the empty string. \<open>save_article\<close> writes to that file name in
  the data directory and to no other.
\<close>

theorem article_filename_format:
  "article_filename a =
     (case date a of None \<Rightarrow> ''unknown''
      | Some d \<Rightarrow> if d = [] then ''unknown'' else take 10 d)
       @ ''_'' @ take 12 (hexdigest (md5 (utf8_encode (url a)))) @ ''.json''
   \<and> length (generate_article_id (url a)) = 12
   \<and> trace (save_article e s (Some a)) =
       trace s @ [WriteArticle (os_path_join DATA_DIR (article_filename a))
                    (file_write e (clock s) (os_path_join DATA_DIR (article_filename a)) = Written)]"
  by (simp add: article_filename_def ARTICLE_FILENAME_FORMAT_def date_prefix_cases
      generate_article_id_def article_filepath_def length_hexdigest length_md5
      split: write_result.splits)

lemma get_page_online_undated:
  "get_page online s undated_url 0 = (Inr (Some (200, undated_page)), emit (Get undated_url True) s)"
  by (subst get_page.simps) (simp add: online_def undated_url_def dated_url_def article_url_def
      raise_for_status_def)

lemma descendants_undated_page:
  "descendants undated_page =
     [Tag ''html'' []
          [Tag ''body'' []
             [Tag ''h1'' [] [NavigableString ''Title''],
              Tag ''time'' [] [],
              Tag ''article'' [] [Tag ''p'' [] [NavigableString ''Hello'']]]],
      Tag ''body'' []
             [Tag ''h1'' [] [NavigableString ''Title''],
              Tag ''time'' [] [],
              Tag ''article'' [] [Tag ''p'' [] [NavigableString ''Hello'']]],
      Tag ''h1'' [] [NavigableString ''Title''],
      NavigableString ''Title'',
      Tag ''time'' [] [],
      Tag ''article'' [] [Tag ''p'' [] [NavigableString ''Hello'']],
      Tag ''p'' [] [NavigableString ''Hello''],
      NavigableString ''Hello'']"
  by (simp add: undated_page_def)

lemma undated_page_date: "extract_date online undated_page = Some []"
  by (simp add: extract_date_def find_date_tag_def soup_find_def soup_find_all_def
      descendants_undated_page tag_with_def date_str_def or_str_def get_text_def online_def)

lemma undated_page_title: "extract_title undated_page = Some ''Title''"
  by (simp add: extract_title_def soup_find_def soup_find_all_def descendants_undated_page
      get_text_plain strip_samples)

lemma undated_page_text: "extract_text undated_page = Some ''Hello''"
  by (simp add: extract_text_def find_article_body_def soup_find_def soup_find_all_def
      descendants_undated_page get_text_plain strip_samples)

lemma undated_page_category: "extract_category online undated_page undated_url = Inr (Some ''politik'')"
  by (simp add: extract_category_def soup_find_def soup_find_all_def descendants_undated_page
      tag_with_def online_def undated_url_def BASE_URL_def)

text \<open>
  C6 as the claim has it fails on a record whose date is the empty string, which is what
  the extractor returns for a page with an empty \<open>time\<close> element: the date is present, its
  first 10 characters are the empty string, and the file name starts with \<open>unknown\<close>.
\<close>

lemma undated_page_author: "extract_author undated_page = None"
  by (simp add: extract_author_def soup_find_def soup_find_all_def descendants_undated_page
      tag_with_def matches_multi_def)

theorem article_filename_empty_date:
  "fst (extract_article_content online init undated_url) =
     Inr (Some \<lparr>url = undated_url, scraped_at = ''2024-01-15T10:00:00'', title = Some ''Title'',
           text' = Some ''Hello'', date = Some [], author = None, category = Some ''politik''\<rparr>)
   \<and> article_filename
        \<lparr>url = undated_url, scraped_at = ''2024-01-15T10:00:00'', title = Some ''Title'',
         text' = Some ''Hello'', date = Some [], author = None, category = Some ''politik''\<rparr>
       = ''unknown_'' @ generate_article_id undated_url @ ''.json''
   \<and> article_filename
        \<lparr>url = undated_url, scraped_at = ''2024-01-15T10:00:00'', title = Some ''Title'',
         text' = Some ''Hello'', date = Some [], author = None, category = Some ''politik''\<rparr>
       \<noteq> take 10 [] @ ''_'' @ generate_article_id undated_url @ ''.json''"
proof -
  have 1: "get_page online (emit (Extracting undated_url (undated_url \<in> scraped_urls init)) init) undated_url 0
      = (Inr (Some (200, undated_page)), emit (Get undated_url True) (emit (Extracting undated_url False) init))"
    by (simp add: get_page_online_undated) (simp add: init_def)
  have "now_iso online n = ''2024-01-15T10:00:00''" for n
    by (simp add: online_def)
  then have "fst (extract_article_content online init undated_url) =
     Inr (Some \<lparr>url = undated_url, scraped_at = ''2024-01-15T10:00:00'', title = Some ''Title'',
           text' = Some ''Hello'', date = Some [], author = None, category = Some ''politik''\<rparr>)"
    using extract_article_content_fetched [OF 1]
    by (simp add: undated_page_title undated_page_text undated_page_category undated_page_date
        undated_page_author)
  then show ?thesis
    by (simp add: article_filename_def ARTICLE_FILENAME_FORMAT_def date_prefix_cases)
qed

theorem article_filename_format_witness:
  "article_filename \<lparr>url = article_url, scraped_at = ''2024-01-15T10:00:00'', title = Some ''Title'',
        text' = Some ''Hello'', date = Some ''2024-01-15T09:30:00+01:00'', author = None,
        category = Some ''politik''\<rparr>
     = ''2024-01-15_'' @ take 12 (hexdigest (md5 (utf8_encode article_url))) @ ''.json''"
  using article_filename_format [of "\<lparr>url = article_url, scraped_at = ''2024-01-15T10:00:00'', title = Some ''Title'',
        text' = Some ''Hello'', date = Some ''2024-01-15T09:30:00+01:00'', author = None,
        category = Some ''politik''\<rparr>" online init]
  by simp

section \<open>Validity of a record and its persistence\<close>

lemma extractions_append [simp]: "extractions (xs @ ys) = extractions xs @ extractions ys"
  by (simp add: extractions_def)

lemma extractions_simps [simp]:
  "extractions [] = []"
  "extractions (ev # evs) = extraction ev @ extractions evs"
  by (simp_all add: extractions_def)

lemma get_page_trace:
  "\<exists>evs. snd (get_page e s u retries) = s\<lparr>trace := trace s @ evs\<rparr>
         \<and> filter is_saved evs = [] \<and> extractions evs = []"
proof (induction e s u retries rule: get_page.induct)
  case (1 e s u retries)
  show ?case
  proof (cases "try_get (http_get e (clock s) u)")
    case (Inl exc)
    then have "snd (get_page e s u retries) = s\<lparr>trace := trace s @ [Get u False]\<rparr>"
      by (subst get_page.simps) (simp add: emit_def)
    then show ?thesis by force
  next
    case (Inr r)
    show ?thesis
    proof (cases r)
      case (Some response)
      with Inr have "snd (get_page e s u retries) = s\<lparr>trace := trace s @ [Get u True]\<rparr>"
        by (subst get_page.simps) (simp add: emit_def)
      then show ?thesis by force
    next
      case None
      show ?thesis
      proof (cases "retries < MAX_RETRIES")
        case False
        with Inr None have "snd (get_page e s u retries) = s\<lparr>trace := trace s @ [Get u False]\<rparr>"
          by (subst get_page.simps) (simp add: emit_def)
        then show ?thesis by force
      next
        case True
        from "1.IH" [OF Inr None True] obtain evs where
          evs: "snd (get_page e (emit (Sleep (REQUEST_DELAY * 2)) (emit (Get u False) s)) u (retries + 1))
                 = (emit (Sleep (REQUEST_DELAY * 2)) (emit (Get u False) s))
                     \<lparr>trace := trace (emit (Sleep (REQUEST_DELAY * 2)) (emit (Get u False) s)) @ evs\<rparr>"
            "filter is_saved evs = []" "extractions evs = []"
          by blast
        from Inr None True have "get_page e s u retries =
            get_page e (emit (Sleep (REQUEST_DELAY * 2)) (emit (Get u False) s)) u (retries + 1)"
          by (subst get_page.simps) simp
        with evs(1) have "snd (get_page e s u retries) =
            s\<lparr>trace := trace s @ ([Get u False, Sleep (REQUEST_DELAY * 2)] @ evs)\<rparr>"
          by (simp add: emit_def)
        moreover have "filter is_saved ([Get u False, Sleep (REQUEST_DELAY * 2)] @ evs) = []"
          "extractions ([Get u False, Sleep (REQUEST_DELAY * 2)] @ evs) = []"
          using evs(2,3) by simp_all
        ultimately show ?thesis by blast
      qed
    qed
  qed
qed

lemma extract_article_content_trace:
  "\<exists>evs. snd (extract_article_content e s u) =
           s\<lparr>trace := trace s @ Extracting u (u \<in> scraped_urls s) # evs\<rparr>
         \<and> filter is_saved evs = [] \<and> extractions evs = []"
proof -
  from get_page_trace [of e "emit (Extracting u (u \<in> scraped_urls s)) s" u 0]
  obtain evs where evs:
    "snd (get_page e (emit (Extracting u (u \<in> scraped_urls s)) s) u 0)
       = (emit (Extracting u (u \<in> scraped_urls s)) s)
           \<lparr>trace := trace (emit (Extracting u (u \<in> scraped_urls s)) s) @ evs\<rparr>"
    "filter is_saved evs = []" "extractions evs = []"
    by blast
  have "snd (extract_article_content e s u)
          = snd (get_page e (emit (Extracting u (u \<in> scraped_urls s)) s) u 0)"
    by (simp add: extract_article_content_def Let_def split: prod.splits option.splits sum.splits)
  with evs(1) have "snd (extract_article_content e s u) =
           s\<lparr>trace := trace s @ Extracting u (u \<in> scraped_urls s) # evs\<rparr>"
    by (simp add: emit_def)
  with evs(2,3) show ?thesis by blast
qed

lemma get_page_frame:
  assumes "get_page e s u retries = (r, s1)"
  shows "articles s1 = articles s" "written s1 = written s" "scraped_urls s1 = scraped_urls s"
proof -
  from get_page_trace [of e s u retries] assms
  obtain evs where "s1 = s\<lparr>trace := trace s @ evs\<rparr>" by auto
  then show "articles s1 = articles s" "written s1 = written s" "scraped_urls s1 = scraped_urls s"
    by simp_all
qed

lemma extract_text_no_paragraphs:
  assumes "find_article_body soup = Some container"
    and "\<forall>p\<in>set (soup_find_all (is_tag ''p'') container). get_text p = []"
  shows "extract_text soup = Some []"
proof -
  have "filter (\<lambda>p. get_text p \<noteq> []) (soup_find_all (is_tag ''p'') container) = []"
    using assms(2) by (simp add: filter_empty_conv)
  with assms(1) show ?thesis
    by (simp add: extract_text_def)
qed

text \<open>
  C1, as the code has it. For a page that was fetched, the extractor returns a record if
  and only if the extracted title and the extracted text are both non-empty and no
  exception was raised while the fields were read; the record carries that title and
  that text. Otherwise it returns \<^verbatim>\<open>None\<close>, nothing has been written, and \<open>save_article\<close>
  of \<^verbatim>\<open>None\<close> changes nothing. A returned record is persisted, that is, its complete file
  is written and the record is appended to the collection, exactly when the write
  succeeds. When the write fails the collection stays as it is and no complete file is
  written: nothing is changed at the path when the file could not be opened, and the file
  is left truncated when the dump failed. In particular a page whose content container
  holds no paragraph with text gives no record.
\<close>

theorem article_persisted_iff:
  assumes "get_page e (emit (Extracting u (u \<in> scraped_urls s)) s) u 0
             = (Inr (Some (status_code, soup)), s1)"
  shows "((\<exists>a. fst (extract_article_content e s u) = Inr (Some a))
            \<longleftrightarrow> truthy (extract_title soup) \<and> truthy (extract_text soup)
                \<and> (\<exists>cat. extract_category e soup u = Inr cat))
     \<and> snd (extract_article_content e s u) = s1
     \<and> (case fst (extract_article_content e s u) of
           Inl exc \<Rightarrow> False
         | Inr None \<Rightarrow> save_article e s1 None = s1 \<and> articles s1 = articles s \<and> written s1 = written s
         | Inr (Some a) \<Rightarrow>
             url a = u \<and> title a = extract_title soup \<and> text' a = extract_text soup
             \<and> (case file_write e (clock s1) (article_filepath a) of
                  Written \<Rightarrow>
                    articles (save_article e s1 (Some a)) = articles s @ [a]
                    \<and> written (save_article e s1 (Some a))
                        = (written s)(article_filepath a \<mapsto> ArticleFile a)
                | OpenFailed \<Rightarrow>
                    articles (save_article e s1 (Some a)) = articles s
                    \<and> written (save_article e s1 (Some a)) = written s
                | DumpFailed \<Rightarrow>
                    articles (save_article e s1 (Some a)) = articles s
                    \<and> written (save_article e s1 (Some a))
                        = (written s)(article_filepath a \<mapsto> TruncatedFile)))
     \<and> (\<forall>container. find_article_body soup = Some container
            \<and> (\<forall>p\<in>set (soup_find_all (is_tag ''p'') container). get_text p = [])
          \<longrightarrow> fst (extract_article_content e s u) = Inr None)"
proof -
  note c = extract_article_content_fetched [OF assms]
  note f = get_page_frame [OF assms]
  have 1: "(\<exists>a. fst (extract_article_content e s u) = Inr (Some a))
            \<longleftrightarrow> truthy (extract_title soup) \<and> truthy (extract_text soup)
                \<and> (\<exists>cat. extract_category e soup u = Inr cat)"
    using c by (cases "extract_category e soup u") auto
  have 2: "snd (extract_article_content e s u) = s1"
    using c by (cases "extract_category e soup u") auto
  have 3: "case fst (extract_article_content e s u) of
           Inl exc \<Rightarrow> False
         | Inr None \<Rightarrow> save_article e s1 None = s1 \<and> articles s1 = articles s \<and> written s1 = written s
         | Inr (Some a) \<Rightarrow>
             url a = u \<and> title a = extract_title soup \<and> text' a = extract_text soup
             \<and> (case file_write e (clock s1) (article_filepath a) of
                  Written \<Rightarrow>
                    articles (save_article e s1 (Some a)) = articles s @ [a]
                    \<and> written (save_article e s1 (Some a))
                        = (written s)(article_filepath a \<mapsto> ArticleFile a)
                | OpenFailed \<Rightarrow>
                    articles (save_article e s1 (Some a)) = articles s
                    \<and> written (save_article e s1 (Some a)) = written s
                | DumpFailed \<Rightarrow>
                    articles (save_article e s1 (Some a)) = articles s
                    \<and> written (save_article e s1 (Some a))
                        = (written s)(article_filepath a \<mapsto> TruncatedFile))"
    using c f
    by (cases "extract_category e soup u") (auto simp: emit_def split: write_result.splits)
  have 4: "fst (extract_article_content e s u) = Inr None"
    if "find_article_body soup = Some container"
      and "\<forall>p\<in>set (soup_find_all (is_tag ''p'') container). get_text p = []" for container
    using c extract_text_no_paragraphs [OF that]
    by (cases "extract_category e soup u") auto
  from 1 2 3 4 show ?thesis by blast
qed

lemma hello_page_title: "extract_title hello_page = Some ''Title''"
  by (simp add: extract_title_def hello_page_h1 get_text_plain strip_samples)

lemma hello_page_text: "extract_text hello_page = Some (''Hello'' @ [CHR 0x0A, CHR 0x0A] @ ''World'')"
  by (simp add: extract_text_def find_article_body_def hello_page_article soup_find_all_def
      get_text_plain strip_samples)

lemma hello_page_author: "extract_author hello_page = None"
  by (simp add: extract_author_def soup_find_def soup_find_all_def descendants_hello_page
      tag_with_def matches_multi_def)

lemma hello_page_date: "extract_date e hello_page = None"
  by (simp add: extract_date_def find_date_tag_def soup_find_def soup_find_all_def
      descendants_hello_page tag_with_def)

lemma hello_page_category:
  "urlparse_path e article_url = Some ''/politik/article1/x.html''
   \<Longrightarrow> extract_category e hello_page article_url = Inr (Some ''politik'')"
  by (simp add: extract_category_def soup_find_def soup_find_all_def descendants_hello_page
      tag_with_def)

lemma extract_hello_record:
  assumes "get_page e (emit (Extracting article_url (article_url \<in> scraped_urls s)) s) article_url 0
             = (Inr (Some (200, hello_page)), s1)"
    and "urlparse_path e article_url = Some ''/politik/article1/x.html''"
    and "now_iso e (clock s1) = ''2024-01-15T10:00:00''"
  shows "extract_article_content e s article_url = (Inr (Some hello_record), s1)"
  using extract_article_content_fetched [OF assms(1)] assms(3)
  by (simp add: hello_page_category [OF assms(2)] hello_page_title hello_page_text
      hello_page_author hello_page_date hello_record_def)

lemma get_page_disk_full_article:
  "get_page disk_full s article_url 0 = (Inr (Some (200, hello_page)), emit (Get article_url True) s)"
  by (subst get_page.simps) (simp add: disk_full_def online_def article_url_def raise_for_status_def)

text \<open>
  C1 as the claim has it fails when the write fails: the title and the text of
  \<open>hello_page\<close> are non-empty and the extractor returns its record, but on a disk where
  no dump completes \<open>save_article\<close> appends nothing to the collection and leaves a
  truncated file.
\<close>

theorem article_not_persisted_on_write_failure:
  "get_page disk_full (emit (Extracting article_url (article_url \<in> scraped_urls init)) init) article_url 0
      = (Inr (Some (200, hello_page)), emit (Get article_url True) (emit (Extracting article_url False) init))
   \<and> truthy (extract_title hello_page) \<and> truthy (extract_text hello_page)
   \<and> extract_article_content disk_full init article_url
      = (Inr (Some hello_record), emit (Get article_url True) (emit (Extracting article_url False) init))
   \<and> articles (save_article disk_full
         (emit (Get article_url True) (emit (Extracting article_url False) init)) (Some hello_record)) = []
   \<and> written (save_article disk_full
         (emit (Get article_url True) (emit (Extracting article_url False) init)) (Some hello_record))
       = [article_filepath hello_record \<mapsto> TruncatedFile]"
proof -
  have 1: "get_page disk_full (emit (Extracting article_url (article_url \<in> scraped_urls init)) init) article_url 0
      = (Inr (Some (200, hello_page)), emit (Get article_url True) (emit (Extracting article_url False) init))"
    by (simp add: get_page_disk_full_article) (simp add: init_def)
  have 2: "urlparse_path disk_full article_url = Some ''/politik/article1/x.html''"
    by (simp add: disk_full_def online_def article_url_def BASE_URL_def)
  have 3: "now_iso disk_full n = ''2024-01-15T10:00:00''" for n
    by (simp add: disk_full_def online_def)
  have 4: "file_write disk_full n p = DumpFailed" for n p
    by (simp add: disk_full_def)
  from extract_hello_record [OF 1 2 3] 1 4 show ?thesis
    by (simp add: hello_page_title hello_page_text) (simp add: init_def)
qed

theorem article_persisted_iff_witness:
  "get_page online (emit (Extracting article_url (article_url \<in> scraped_urls init)) init) article_url 0
      = (Inr (Some (200, hello_page)), emit (Get article_url True) (emit (Extracting article_url False) init))
   \<and> extract_article_content online init article_url
      = (Inr (Some hello_record), emit (Get article_url True) (emit (Extracting article_url False) init))
   \<and> truthy (extract_title hello_page) \<and> truthy (extract_text hello_page)
   \<and> articles (save_article online
         (emit (Get article_url True) (emit (Extracting article_url False) init)) (Some hello_record))
       = [hello_record]
   \<and> written (save_article online
         (emit (Get article_url True) (emit (Extracting article_url False) init)) (Some hello_record))
       = [article_filepath hello_record \<mapsto> ArticleFile hello_record]"
proof -
  have 1: "get_page online (emit (Extracting article_url (article_url \<in> scraped_urls init)) init) article_url 0
      = (Inr (Some (200, hello_page)), emit (Get article_url True) (emit (Extracting article_url False) init))"
    by (simp add: get_page_online_article) (simp add: init_def)
  have 2: "urlparse_path online article_url = Some ''/politik/article1/x.html''"
    by (simp add: online_def article_url_def BASE_URL_def)
  have 3: "now_iso online n = ''2024-01-15T10:00:00''" for n
    by (simp add: online_def)
  have 4: "file_write online n p = Written" for n p
    by (simp add: online_def)
  note x = extract_hello_record [OF 1 2 3]
  from article_persisted_iff [OF 1] x 4
  have "truthy (extract_title hello_page) \<and> truthy (extract_text hello_page)"
    and "articles (save_article online
         (emit (Get article_url True) (emit (Extracting article_url False) init)) (Some hello_record))
       = articles init @ [hello_record]"
    and "written (save_article online
         (emit (Get article_url True) (emit (Extracting article_url False) init)) (Some hello_record))
       = (written init)(article_filepath hello_record \<mapsto> ArticleFile hello_record)"
    by simp_all
  with 1 x show ?thesis by (simp add: init_def)
qed

section \<open>Invariants of the orchestrator\<close>

lemma successful_saves_simps [simp]:
  "successful_saves [] = 0"
  "successful_saves (ev # evs) = (if is_saved ev then 1 else 0) + successful_saves evs"
  "successful_saves (xs @ ys) = successful_saves xs + successful_saves ys"
  by (simp_all add: successful_saves_def)

lemma attempted_simps [simp]:
  "attempted [] = []"
  "attempted (ev # evs) = map fst (extraction ev) @ attempted evs"
  "attempted (xs @ ys) = attempted xs @ attempted ys"
  by (simp_all add: attempted_def)

lemma later_refl: "later s [] s"
  by (simp add: later_def)

lemma later_trans:
  assumes "later s evs1 s1" and "later s1 evs2 s2"
  shows "later s (evs1 @ evs2) s2"
proof -
  from assms obtain new1 new2 where
    "articles s1 = articles s @ new1" "length new1 = successful_saves evs1"
    "articles s2 = articles s1 @ new2" "length new2 = successful_saves evs2"
    unfolding later_def by blast
  then have "articles s2 = articles s @ (new1 @ new2)"
    "length (new1 @ new2) = successful_saves (evs1 @ evs2)"
    by simp_all
  then have a: "\<exists>new. articles s2 = articles s @ new \<and> length new = successful_saves (evs1 @ evs2)"
    by blast
  from assms have "set (attempted evs2) \<inter> (scraped_urls s \<union> set (attempted evs1)) = {}"
    unfolding later_def by simp
  with assms a show ?thesis
    unfolding later_def by auto
qed

lemma quiet_later:
  assumes "s' = s\<lparr>trace := trace s @ evs\<rparr>" and "filter is_saved evs = []" and "extractions evs = []"
  shows "later s evs s'"
  using assms by (simp add: later_def attempted_def successful_saves_def)

lemma later_emit:
  "\<not> is_saved ev \<Longrightarrow> extraction ev = [] \<Longrightarrow> later s [ev] (emit ev s)"
  by (rule quiet_later) (simp_all add: emit_def)

lemma later_get_page:
  "\<exists>evs. later s evs (snd (get_page e s u retries)) \<and> successful_saves evs = 0"
proof -
  from get_page_trace [of e s u retries] obtain evs where
    evs: "snd (get_page e s u retries) = s\<lparr>trace := trace s @ evs\<rparr>"
      "filter is_saved evs = []" "extractions evs = []"
    by blast
  from quiet_later [OF evs] evs(2) show ?thesis
    by (auto simp: successful_saves_def)
qed

lemma later_extract:
  assumes "u \<notin> scraped_urls s"
  shows "\<exists>evs. later s evs (snd (extract_article_content e (s\<lparr>scraped_urls := insert u (scraped_urls s)\<rparr>) u))
           \<and> successful_saves evs = 0"
proof -
  let ?s = "s\<lparr>scraped_urls := insert u (scraped_urls s)\<rparr>"
  from extract_article_content_trace [of e ?s u] obtain evs where
    evs: "snd (extract_article_content e ?s u) = ?s\<lparr>trace := trace ?s @ Extracting u (u \<in> scraped_urls ?s) # evs\<rparr>"
      "filter is_saved evs = []" "extractions evs = []"
    by blast
  then have "later s (Extracting u True # evs) (snd (extract_article_content e ?s u))"
    using assms by (simp add: later_def attempted_def successful_saves_def)
  moreover have "successful_saves (Extracting u True # evs) = 0"
    using evs(2) by (simp add: successful_saves_def)
  ultimately show ?thesis by blast
qed

lemma later_save_article:
  "later s [WriteArticle (article_filepath a) (file_write e (clock s) (article_filepath a) = Written)]
     (save_article e s (Some a))"
  by (simp add: later_def emit_def split: write_result.splits)

lemma later_save_all_articles:
  "later s [WriteCombined (file_write e (clock s) COMBINED_OUTPUT = Written)] (save_all_articles e s)"
  by (simp add: later_def save_all_articles_def emit_def split: write_result.splits)

lemma scrape_loop_later:
  "\<exists>evs. later s evs (state_of (scrape_loop e max_articles article_links count s))
         \<and> int (successful_saves evs) \<le> max 0 (max_articles - count)"
proof (induction e max_articles article_links count s rule: scrape_loop.induct)
  case (1 e max_articles count s)
  have "later s [] s" by (rule later_refl)
  then show ?case by force
next
  case (2 e max_articles article_url article_links count s)
  let ?s = "s\<lparr>scraped_urls := insert article_url (scraped_urls s)\<rparr>"
  show ?case
  proof (cases "max_articles \<le> count")
    case True
    have "later s [] s" by (rule later_refl)
    with True show ?thesis by force
  next
    case False
    show ?thesis
    proof (cases "article_url \<in> scraped_urls s")
      case True
      with False "2.IH"(1) show ?thesis by simp
    next
      case fresh: False
      obtain x y where xy: "(x, y) = extract_article_content e ?s article_url"
        by (metis surj_pair)
      from later_extract [OF fresh, of e] xy obtain evs1 where
        evs1: "later s evs1 y" "successful_saves evs1 = 0"
        by (metis snd_conv)
      show ?thesis
      proof (cases x)
        case (Inl exc)
        from evs1(1) have "later s evs1
                (state_of (scrape_loop e max_articles (article_url # article_links) count s))"
          using False fresh xy [symmetric] Inl by simp
        moreover have "int (successful_saves evs1) \<le> max 0 (max_articles - count)"
          using evs1(2) by simp
        ultimately show ?thesis by blast
      next
        case (Inr b)
        show ?thesis
        proof (cases b)
          case None
          from "2.IH"(2) [OF False fresh xy Inr None] obtain evs2 where
            evs2: "later (emit (Sleep REQUEST_DELAY) y) evs2
                     (state_of (scrape_loop e max_articles article_links count (emit (Sleep REQUEST_DELAY) y)))"
              "int (successful_saves evs2) \<le> max 0 (max_articles - count)"
            by blast
          have "later y [Sleep REQUEST_DELAY] (emit (Sleep REQUEST_DELAY) y)"
            by (rule later_emit) simp_all
          from later_trans [OF later_trans [OF evs1(1) this] evs2(1)]
          have "later s ((evs1 @ [Sleep REQUEST_DELAY]) @ evs2)
                  (state_of (scrape_loop e max_articles (article_url # article_links) count s))"
            using False fresh xy [symmetric] Inr None by simp
          moreover have "int (successful_saves ((evs1 @ [Sleep REQUEST_DELAY]) @ evs2))
                           \<le> max 0 (max_articles - count)"
            using evs1(2) evs2(2) by simp
          ultimately show ?thesis by blast
        next
          case (Some a)
          let ?w = "WriteArticle (article_filepath a) (file_write e (clock y) (article_filepath a) = Written)"
          from "2.IH"(3) [OF False fresh xy Inr Some] obtain evs2 where
            evs2: "later (emit (Sleep REQUEST_DELAY) (save_article e y (Some a))) evs2
                     (state_of (scrape_loop e max_articles article_links (count + 1)
                        (emit (Sleep REQUEST_DELAY) (save_article e y (Some a)))))"
              "int (successful_saves evs2) \<le> max 0 (max_articles - (count + 1))"
            by blast
          have w: "later y [?w] (save_article e y (Some a))"
            by (rule later_save_article)
          have "later (save_article e y (Some a)) [Sleep REQUEST_DELAY]
                  (emit (Sleep REQUEST_DELAY) (save_article e y (Some a)))"
            by (rule later_emit) simp_all
          from later_trans [OF later_trans [OF later_trans [OF evs1(1) w] this] evs2(1)]
          have "later s (((evs1 @ [?w]) @ [Sleep REQUEST_DELAY]) @ evs2)
                  (state_of (scrape_loop e max_articles (article_url # article_links) count s))"
            using False fresh xy [symmetric] Inr Some by simp
          moreover have "int (successful_saves (((evs1 @ [?w]) @ [Sleep REQUEST_DELAY]) @ evs2))
                           \<le> max 0 (max_articles - count)"
            using evs1(2) evs2(2) False by simp
          ultimately show ?thesis by blast
        qed
      qed
    qed
  qed
qed

lemma scrape_category_later:
  "\<exists>evs. later s evs (state_of (scrape_category e s category_url max_articles))
         \<and> int (successful_saves evs) \<le> max 0 max_articles"
proof -
  obtain r s1 where g: "get_page e s category_url 0 = (r, s1)"
    by (metis surj_pair)
  from later_get_page [of s e category_url 0] g obtain evs1 where
    evs1: "later s evs1 s1" "successful_saves evs1 = 0"
    by auto
  show ?thesis
  proof (cases r)
    case (Inl exc)
    with g evs1 show ?thesis
      by (auto simp: scrape_category_def)
  next
    case (Inr b)
    show ?thesis
    proof (cases b)
      case None
      with g Inr evs1 show ?thesis
        by (auto simp: scrape_category_def)
    next
      case (Some response)
      obtain status_code soup where response: "response = (status_code, soup)"
        by (metis surj_pair)
      show ?thesis
      proof (cases "extract_article_links e s1 soup category_url")
        case (Inl err)
        with g Inr Some response evs1 show ?thesis
          by (auto simp: scrape_category_def)
      next
        case links: (Inr article_links)
        from scrape_loop_later [of s1 e max_articles "iteration_order e article_links" 0]
        obtain evs2 where
          evs2: "later s1 evs2
                   (state_of (scrape_loop e max_articles (iteration_order e article_links) 0 s1))"
            "int (successful_saves evs2) \<le> max 0 max_articles"
          by auto
        from later_trans [OF evs1(1) evs2(1)] g Inr Some response links
        have "later s (evs1 @ evs2) (state_of (scrape_category e s category_url max_articles))"
          by (simp add: scrape_category_def)
        moreover have "int (successful_saves (evs1 @ evs2)) \<le> max 0 max_articles"
          using evs1(2) evs2(2) by simp
        ultimately show ?thesis by blast
      qed
    qed
  qed
qed

lemma later_articles:
  assumes "later s evs s'"
  shows "length (articles s') = length (articles s) + successful_saves evs"
  using assms by (auto simp: later_def)

lemma categories_loop_later:
  "\<exists>evs. later s evs (final_state (categories_loop e category_urls total_articles s))
         \<and> (\<forall>n s'. categories_loop e category_urls total_articles s = Inr (n, s')
               \<longrightarrow> n = total_articles + int (successful_saves evs))"
proof (induction e category_urls total_articles s rule: categories_loop.induct)
  case (1 e total_articles s)
  have "later s [] s" by (rule later_refl)
  then show ?case by force
next
  case (2 e category_url category_urls total_articles s)
  from scrape_category_later [of s e category_url MAX_ARTICLES_PER_CATEGORY]
  obtain evs1 where
    evs1: "later s evs1 (state_of (scrape_category e s category_url MAX_ARTICLES_PER_CATEGORY))"
    by blast
  show ?case
  proof (cases "scrape_category e s category_url MAX_ARTICLES_PER_CATEGORY")
    case (Inl exc)
    then have "final_state (categories_loop e (category_url # category_urls) total_articles s)
                 = state_of (scrape_category e s category_url MAX_ARTICLES_PER_CATEGORY)"
      by (cases exc) simp
    with evs1 Inl show ?thesis by force
  next
    case (Inr s1)
    let ?t = "total_articles + (int (length (articles s1)) - int (length (articles s)))"
    from "2.IH" [OF Inr] obtain evs2 where
      evs2: "later s1 evs2 (final_state (categories_loop e category_urls ?t s1))"
        "\<forall>n s'. categories_loop e category_urls ?t s1 = Inr (n, s') \<longrightarrow> n = ?t + int (successful_saves evs2)"
      by blast
    from evs1 Inr have l1: "later s evs1 s1" by simp
    from later_articles [OF l1] have t: "?t = total_articles + int (successful_saves evs1)"
      by simp
    from later_trans [OF l1 evs2(1)] Inr
    have "later s (evs1 @ evs2)
            (final_state (categories_loop e (category_url # category_urls) total_articles s))"
      by simp
    moreover have "\<forall>n s'. categories_loop e (category_url # category_urls) total_articles s = Inr (n, s')
               \<longrightarrow> n = total_articles + int (successful_saves (evs1 @ evs2))"
      using evs2(2) Inr t by (simp add: add.assoc)
    ultimately show ?thesis by blast
  qed
qed

lemma scrape_all_later:
  "\<exists>evs. later s evs (final_state (scrape_all e s))
         \<and> (\<forall>n s'. scrape_all e s = Inr (n, s') \<longrightarrow>
               n = int (successful_saves evs)
               \<and> (\<exists>s1. s' = save_all_articles e s1
                       \<and> length (articles s1) = length (articles s) + successful_saves evs))"
proof (cases "makedirs_ok e (clock s)")
  case False
  have "later s [Makedirs False] (emit (Makedirs False) s)"
    by (rule later_emit) simp_all
  with False show ?thesis
    by (force simp: scrape_all_def)
next
  case True
  let ?s0 = "emit (Makedirs True) s"
  have l0: "later s [Makedirs True] ?s0"
    by (rule later_emit) simp_all
  from categories_loop_later [of ?s0 e CATEGORY_URLS 0] obtain evs1 where
    evs1: "later ?s0 evs1 (final_state (categories_loop e CATEGORY_URLS 0 ?s0))"
      "\<forall>n s'. categories_loop e CATEGORY_URLS 0 ?s0 = Inr (n, s') \<longrightarrow> n = 0 + int (successful_saves evs1)"
    by blast
  show ?thesis
  proof (cases "categories_loop e CATEGORY_URLS 0 ?s0")
    case (Inl exc)
    with True have "final_state (scrape_all e s) = final_state (categories_loop e CATEGORY_URLS 0 ?s0)"
      by (simp add: scrape_all_def)
    with later_trans [OF l0 evs1(1)] True Inl show ?thesis
      by (force simp: scrape_all_def)
  next
    case (Inr r)
    obtain n s1 where r: "r = (n, s1)" by (metis surj_pair)
    with Inr evs1 have n: "n = int (successful_saves evs1)" and l1: "later ?s0 evs1 s1"
      by simp_all
    let ?w = "WriteCombined (file_write e (clock s1) COMBINED_OUTPUT = Written)"
    have l2: "later s1 [?w] (save_all_articles e s1)"
      by (rule later_save_all_articles)
    from True Inr r have a: "scrape_all e s = Inr (n, save_all_articles e s1)"
      by (simp add: scrape_all_def)
    from later_trans [OF later_trans [OF l0 l1] l2] a
    have "later s (([Makedirs True] @ evs1) @ [?w]) (final_state (scrape_all e s))"
      by simp
    moreover have "successful_saves (([Makedirs True] @ evs1) @ [?w]) = successful_saves evs1"
      by simp
    moreover have "length (articles s1) = length (articles s) + successful_saves evs1"
      using later_articles [OF later_trans [OF l0 l1]] by simp
    ultimately show ?thesis
      using a n by force
  qed
qed

section \<open>Properties of the orchestrator\<close>

lemma later_trace: "later s evs s' \<Longrightarrow> trace s' = trace s @ evs"
  by (simp add: later_def)

lemma scrape_loop_break:
  "max_articles \<le> count \<Longrightarrow> scrape_loop e max_articles article_links count s = Inr s"
  by (cases article_links) simp_all

text \<open>
  C7. With a cap that is not negative, a call of \<open>scrape_category\<close> writes at most
  \<open>max_articles\<close> article files and appends at most \<open>max_articles\<close> records to the
  collection, whether it ends with an exception or not. Once the counter has reached the
  cap the loop over the links ends at once, whatever links are left.
\<close>

theorem scrape_category_cap:
  assumes "0 \<le> max_articles"
  shows "(\<exists>evs. trace (state_of (scrape_category e s category_url max_articles)) = trace s @ evs
            \<and> int (successful_saves evs) \<le> max_articles)
     \<and> int (length (articles (state_of (scrape_category e s category_url max_articles))))
          - int (length (articles s)) \<le> max_articles
     \<and> (\<forall>article_links count s0. max_articles \<le> count
            \<longrightarrow> scrape_loop e max_articles article_links count s0 = Inr s0)"
proof -
  from scrape_category_later [of s e category_url max_articles] obtain evs where
    evs: "later s evs (state_of (scrape_category e s category_url max_articles))"
      "int (successful_saves evs) \<le> max 0 max_articles"
    by blast
  from evs(2) assms have c: "int (successful_saves evs) \<le> max_articles" by simp
  from later_trace [OF evs(1)] c
  have 1: "\<exists>evs. trace (state_of (scrape_category e s category_url max_articles)) = trace s @ evs
            \<and> int (successful_saves evs) \<le> max_articles"
    by blast
  from later_articles [OF evs(1)] c
  have 2: "int (length (articles (state_of (scrape_category e s category_url max_articles))))
          - int (length (articles s)) \<le> max_articles"
    by simp
  from 1 2 scrape_loop_break show ?thesis by blast
qed

theorem scrape_category_cap_witness:
  "0 \<le> MAX_ARTICLES_PER_CATEGORY
   \<and> int (length (articles (state_of
        (scrape_category online init ''https://www.welt.de/politik/'' MAX_ARTICLES_PER_CATEGORY))))
       - int (length (articles init)) \<le> MAX_ARTICLES_PER_CATEGORY
   \<and> scrape_loop online MAX_ARTICLES_PER_CATEGORY [article_url] 50 init = Inr init"
proof -
  have h: "0 \<le> MAX_ARTICLES_PER_CATEGORY"
    by (simp add: MAX_ARTICLES_PER_CATEGORY_def)
  have "MAX_ARTICLES_PER_CATEGORY \<le> 50"
    by (simp add: MAX_ARTICLES_PER_CATEGORY_def)
  with scrape_category_cap [OF h, of online init "''https://www.welt.de/politik/''"] h
  show ?thesis by blast
qed

text \<open>
  C10. In a call of \<open>scrape_category\<close> and in a whole run, whether they end with an
  exception or not: the set of scraped URLs only grows, by exactly the URLs whose
  extraction was attempted; each of these was in the set when its extraction began;
  none of them was in the set at the start, and none is attempted twice. So a URL stays
  marked as scraped whatever became of its fetch and its extraction, and it is not
  attempted again, on whatever category page it appears later.
\<close>

theorem scraped_urls_grow:
  "(\<exists>evs. trace (final_state (scrape_all e s)) = trace s @ evs
         \<and> scraped_urls (final_state (scrape_all e s)) = scraped_urls s \<union> set (attempted evs)
         \<and> list_all snd (extractions evs)
         \<and> distinct (attempted evs)
         \<and> set (attempted evs) \<inter> scraped_urls s = {})
   \<and> (\<exists>evs. trace (state_of (scrape_category e s category_url max_articles)) = trace s @ evs
         \<and> scraped_urls (state_of (scrape_category e s category_url max_articles))
              = scraped_urls s \<union> set (attempted evs)
         \<and> list_all snd (extractions evs)
         \<and> distinct (attempted evs)
         \<and> set (attempted evs) \<inter> scraped_urls s = {})"
proof -
  from scrape_all_later [of s e] obtain evs1 where
    "later s evs1 (final_state (scrape_all e s))" by blast
  then have 1: "\<exists>evs. trace (final_state (scrape_all e s)) = trace s @ evs
         \<and> scraped_urls (final_state (scrape_all e s)) = scraped_urls s \<union> set (attempted evs)
         \<and> list_all snd (extractions evs)
         \<and> distinct (attempted evs)
         \<and> set (attempted evs) \<inter> scraped_urls s = {}"
    unfolding later_def by blast
  from scrape_category_later [of s e category_url max_articles] obtain evs2 where
    "later s evs2 (state_of (scrape_category e s category_url max_articles))" by blast
  then have 2: "\<exists>evs. trace (state_of (scrape_category e s category_url max_articles)) = trace s @ evs
         \<and> scraped_urls (state_of (scrape_category e s category_url max_articles))
              = scraped_urls s \<union> set (attempted evs)
         \<and> list_all snd (extractions evs)
         \<and> distinct (attempted evs)
         \<and> set (attempted evs) \<inter> scraped_urls s = {}"
    unfolding later_def by blast
  from 1 2 show ?thesis by blast
qed

text \<open>
  C4. A call of \<open>save_article\<close> appends its record to the collection exactly when its
  write succeeds, and leaves the collection as it is when the write fails. When a run
  ends without an exception, its last event is the write of the combined file; the
  collection, which is what that write puts into the file, has as many records as article
  files were written in the run, and that number is the total that the run returns.
\<close>

theorem combined_output_length:
  assumes "main e = Inr (total_articles, s')"
  shows "length (articles s') = successful_saves (trace s')
     \<and> total_articles = int (length (articles s'))
     \<and> (\<exists>tr ok. trace s' = tr @ [WriteCombined ok]
           \<and> (ok \<longrightarrow> written s' COMBINED_OUTPUT = Some (CombinedFile (articles s'))))
     \<and> (\<forall>s a. articles (save_article e s (Some a))
                 = (if file_write e (clock s) (article_filepath a) = Written then articles s @ [a] else articles s)
              \<and> successful_saves (trace (save_article e s (Some a)))
                 = successful_saves (trace s)
                   + (if file_write e (clock s) (article_filepath a) = Written then 1 else 0))"
proof -
  from scrape_all_later [of init e] obtain evs where
    evs: "later init evs (final_state (scrape_all e init))"
      "\<forall>n s'. scrape_all e init = Inr (n, s') \<longrightarrow>
               n = int (successful_saves evs)
               \<and> (\<exists>s1. s' = save_all_articles e s1
                       \<and> length (articles s1) = length (articles init) + successful_saves evs)"
    by blast
  from assms have m: "scrape_all e init = Inr (total_articles, s')"
    by (simp add: main_def)
  with evs(1) have l: "later init evs s'" by simp
  from later_trace [OF l] have tr: "trace s' = evs" by (simp add: init_def)
  from later_articles [OF l] tr
  have 1: "length (articles s') = successful_saves (trace s')" by (simp add: init_def)
  from evs(2) m tr 1 have 2: "total_articles = int (length (articles s'))" by simp
  from evs(2) m obtain s1 where s1: "s' = save_all_articles e s1" by blast
  have 3: "\<exists>tr ok. trace s' = tr @ [WriteCombined ok]
           \<and> (ok \<longrightarrow> written s' COMBINED_OUTPUT = Some (CombinedFile (articles s')))"
  proof (cases "file_write e (clock s1) COMBINED_OUTPUT = Written")
    case True
    with s1 have "trace s' = trace s1 @ [WriteCombined True]"
      "written s' COMBINED_OUTPUT = Some (CombinedFile (articles s'))"
      by (simp_all add: save_all_articles_def)
    then show ?thesis by blast
  next
    case False
    with s1 have "trace s' = trace s1 @ [WriteCombined False]"
      by (simp add: save_all_articles_def split: write_result.splits)
    then show ?thesis by blast
  qed
  have 4: "articles (save_article e s (Some a))
                 = (if file_write e (clock s) (article_filepath a) = Written then articles s @ [a] else articles s)
              \<and> successful_saves (trace (save_article e s (Some a)))
                 = successful_saves (trace s)
                   + (if file_write e (clock s) (article_filepath a) = Written then 1 else 0)" for s a
    by (simp split: write_result.splits)
  from 1 2 3 4 show ?thesis by blast
qed

lemma scrape_category_not_fetched:
  assumes "\<forall>n. try_get (http_get e n u) = Inr None"
  shows "\<exists>evs. scrape_category e s u max_articles = Inr (s\<lparr>trace := trace s @ evs\<rparr>)"
proof -
  from get_page_fails_from [OF assms, of 0 s] obtain evs where
    "get_page e s u 0 = (Inr None, s\<lparr>trace := trace s @ evs\<rparr>)"
    by (auto simp: MAX_RETRIES_def)
  then have "scrape_category e s u max_articles = Inr (s\<lparr>trace := trace s @ evs\<rparr>)"
    by (simp add: scrape_category_def)
  then show ?thesis by blast
qed

lemma get_page_online_listing:
  "get_page online s ''https://www.welt.de/politik/'' 0
     = (Inr (Some (200, listing_page)), emit (Get ''https://www.welt.de/politik/'' True) s)"
  by (subst get_page.simps) (simp add: online_def raise_for_status_def)

lemma links_listing_fresh:
  "article_url \<notin> scraped_urls s \<Longrightarrow>
   extract_article_links online s listing_page ''https://www.welt.de/politik/'' = Inr {article_url}"
  by (simp add: extract_article_links_def anchor_hrefs_listing online_def
      article_patterns_def startswith_def endswith_def BASE_URL_def article_url_def)

lemma scrape_category_online_politik:
  assumes "article_url \<notin> scraped_urls s"
  shows "\<exists>s'. scrape_category online s ''https://www.welt.de/politik/'' MAX_ARTICLES_PER_CATEGORY = Inr s'
          \<and> articles s' = articles s @ [hello_record]
          \<and> scraped_urls s' = insert article_url (scraped_urls s)
          \<and> written s' = (written s)(article_filepath hello_record \<mapsto> ArticleFile hello_record)"
proof -
  define s1 where "s1 = emit (Get ''https://www.welt.de/politik/'' True) s"
  define s2 where "s2 = s1\<lparr>scraped_urls := insert article_url (scraped_urls s1)\<rparr>"
  define s3 where "s3 = emit (Get article_url True) (emit (Extracting article_url True) s2)"
  have f: "article_url \<notin> scraped_urls s1"
    using assms by (simp add: s1_def)
  have i: "iteration_order online {article_url} = [article_url]"
    by (simp add: online_def)
  have "get_page online (emit (Extracting article_url (article_url \<in> scraped_urls s2)) s2) article_url 0
          = (Inr (Some (200, hello_page)), s3)"
    by (simp add: get_page_online_article s3_def s2_def)
  moreover have "urlparse_path online article_url = Some ''/politik/article1/x.html''"
    by (simp add: online_def article_url_def BASE_URL_def)
  moreover have "now_iso online (clock s3) = ''2024-01-15T10:00:00''"
    by (simp add: online_def)
  ultimately have x: "extract_article_content online s2 article_url = (Inr (Some hello_record), s3)"
    by (rule extract_hello_record)
  have w: "file_write online n p = Written" for n p
    by (simp add: online_def)
  have "scrape_loop online MAX_ARTICLES_PER_CATEGORY [article_url] 0 s1
          = Inr (emit (Sleep REQUEST_DELAY) (save_article online s3 (Some hello_record)))"
    using f x by (simp add: MAX_ARTICLES_PER_CATEGORY_def s2_def)
  then have "scrape_category online s ''https://www.welt.de/politik/'' MAX_ARTICLES_PER_CATEGORY
          = Inr (emit (Sleep REQUEST_DELAY) (save_article online s3 (Some hello_record)))"
    by (simp add: scrape_category_def get_page_online_listing links_listing_fresh [OF f] i
        flip: s1_def)
  moreover have "articles (emit (Sleep REQUEST_DELAY) (save_article online s3 (Some hello_record)))
          = articles s @ [hello_record]"
    "scraped_urls (emit (Sleep REQUEST_DELAY) (save_article online s3 (Some hello_record)))
          = insert article_url (scraped_urls s)"
    "written (emit (Sleep REQUEST_DELAY) (save_article online s3 (Some hello_record)))
          = (written s)(article_filepath hello_record \<mapsto> ArticleFile hello_record)"
    using w by (simp_all add: s3_def s2_def s1_def)
  ultimately show ?thesis by blast
qed

lemma online_categories_down:
  "\<forall>n. try_get (http_get online n ''https://www.welt.de/wirtschaft/'') = Inr None"
  "\<forall>n. try_get (http_get online n ''https://www.welt.de/sport/'') = Inr None"
  "\<forall>n. try_get (http_get online n ''https://www.welt.de/kultur/'') = Inr None"
  "\<forall>n. try_get (http_get online n ''https://www.welt.de/wissenschaft/'') = Inr None"
  "\<forall>n. try_get (http_get online n ''https://www.welt.de/'') = Inr None"
  by (simp_all add: online_def article_url_def dated_url_def undated_url_def)

lemma main_online:
  "\<exists>s'. main online = Inr (1, s')
        \<and> articles s' = [hello_record]
        \<and> scraped_urls s' = {article_url}
        \<and> written s' COMBINED_OUTPUT = Some (CombinedFile [hello_record])"
proof -
  define s0 where "s0 = emit (Makedirs True) init"
  have "article_url \<notin> scraped_urls s0"
    by (simp add: s0_def init_def)
  from scrape_category_online_politik [OF this] obtain s1 where
    s1: "scrape_category online s0 ''https://www.welt.de/politik/'' MAX_ARTICLES_PER_CATEGORY = Inr s1"
      "articles s1 = [hello_record]" "scraped_urls s1 = {article_url}"
    by (auto simp: s0_def init_def)
  from scrape_category_not_fetched [OF online_categories_down(1)] obtain evs2 where
    s2: "scrape_category online s1 ''https://www.welt.de/wirtschaft/'' MAX_ARTICLES_PER_CATEGORY
           = Inr (s1\<lparr>trace := trace s1 @ evs2\<rparr>)"
    by blast
  define s2 where "s2 = s1\<lparr>trace := trace s1 @ evs2\<rparr>"
  from scrape_category_not_fetched [OF online_categories_down(2)] obtain evs3 where
    s3: "scrape_category online s2 ''https://www.welt.de/sport/'' MAX_ARTICLES_PER_CATEGORY
           = Inr (s2\<lparr>trace := trace s2 @ evs3\<rparr>)"
    by blast
  define s3 where "s3 = s2\<lparr>trace := trace s2 @ evs3\<rparr>"
  from scrape_category_not_fetched [OF online_categories_down(3)] obtain evs4 where
    s4: "scrape_category online s3 ''https://www.welt.de/kultur/'' MAX_ARTICLES_PER_CATEGORY
           = Inr (s3\<lparr>trace := trace s3 @ evs4\<rparr>)"
    by blast
  define s4 where "s4 = s3\<lparr>trace := trace s3 @ evs4\<rparr>"
  from scrape_category_not_fetched [OF online_categories_down(4)] obtain evs5 where
    s5: "scrape_category online s4 ''https://www.welt.de/wissenschaft/'' MAX_ARTICLES_PER_CATEGORY
           = Inr (s4\<lparr>trace := trace s4 @ evs5\<rparr>)"
    by blast
  define s5 where "s5 = s4\<lparr>trace := trace s4 @ evs5\<rparr>"
  from scrape_category_not_fetched [OF online_categories_down(5)] obtain evs6 where
    s6: "scrape_category online s5 ''https://www.welt.de/'' MAX_ARTICLES_PER_CATEGORY
           = Inr (s5\<lparr>trace := trace s5 @ evs6\<rparr>)"
    by blast
  define s6 where "s6 = s5\<lparr>trace := trace s5 @ evs6\<rparr>"
  have a: "articles s6 = [hello_record]" "scraped_urls s6 = {article_url}"
    using s1(2,3) by (simp_all add: s6_def s5_def s4_def s3_def s2_def)
  have "categories_loop online CATEGORY_URLS 0 s0 = Inr (1, s6)"
    using s1 s2 s3 s4 s5 s6
    by (simp add: CATEGORY_URLS_def s0_def init_def flip: s2_def s3_def s4_def s5_def s6_def)
      (simp add: s6_def s5_def s4_def s3_def s2_def)
  moreover have "makedirs_ok online n" for n
    by (simp add: online_def)
  ultimately have "main online = Inr (1, save_all_articles online s6)"
    by (simp add: main_def scrape_all_def s0_def)
  moreover have "file_write online n p = Written" for n p
    by (simp add: online_def)
  then have "articles (save_all_articles online s6) = [hello_record]"
    "scraped_urls (save_all_articles online s6) = {article_url}"
    "written (save_all_articles online s6) COMBINED_OUTPUT = Some (CombinedFile [hello_record])"
    using a by (simp_all add: save_all_articles_def)
  ultimately show ?thesis by blast
qed

theorem combined_output_length_witness:
  "\<exists>s'. main online = Inr (1, s')
        \<and> articles s' = [hello_record]
        \<and> written s' COMBINED_OUTPUT = Some (CombinedFile [hello_record])
        \<and> successful_saves (trace s') = 1"
proof -
  from main_online obtain s' where
    s': "main online = Inr (1, s')" "articles s' = [hello_record]"
      "written s' COMBINED_OUTPUT = Some (CombinedFile [hello_record])"
    by blast
  from combined_output_length [OF s'(1)] s'(2)
  have "successful_saves (trace s') = 1" by simp
  with s' show ?thesis by blast
qed

theorem scraped_urls_grow_witness:
  "scraped_urls (final_state (scrape_all online init)) = {article_url}
   \<and> (\<exists>evs. trace (final_state (scrape_all online init)) = trace init @ evs
         \<and> set (attempted evs) = {article_url}
         \<and> list_all snd (extractions evs)
         \<and> distinct (attempted evs))"
proof -
  from main_online obtain s' where "main online = Inr (1, s')" "scraped_urls s' = {article_url}"
    by blast
  then have 1: "scraped_urls (final_state (scrape_all online init)) = {article_url}"
    by (simp add: main_def)
  have "\<exists>evs. trace (final_state (scrape_all online init)) = trace init @ evs
         \<and> scraped_urls (final_state (scrape_all online init)) = scraped_urls init \<union> set (attempted evs)
         \<and> list_all snd (extractions evs)
         \<and> distinct (attempted evs)
         \<and> set (attempted evs) \<inter> scraped_urls init = {}"
    using scraped_urls_grow [of online init "[]" 0] by (rule conjunct1)
  then obtain evs where
    evs: "trace (final_state (scrape_all online init)) = trace init @ evs"
      "scraped_urls (final_state (scrape_all online init)) = scraped_urls init \<union> set (attempted evs)"
      "list_all snd (extractions evs)" "distinct (attempted evs)"
    by blast
  from evs(2) 1 have "set (attempted evs) = {article_url}"
    by (simp add: init_def)
  with 1 evs(1,3,4) show ?thesis by blast
qed

end
